theory Spec2Isabelle
  imports Main "HOL-Library.Finite_Map" "HOL-Library.Sublist"
begin

section \<open>Ownership annotations of a Helm release (pkg/release/annotate.go)\<close>

text \<open>
  The file has four functions: \<open>annotatedWithResourceID\<close> (verify),
  \<open>annotateWithResourceID\<close> (claim), \<open>releaseManifestToUnstructured\<close>
  (decomposition) and \<open>buildDiscoveryRestMapper\<close>. They are embedded below with the
  cluster they talk to as an explicit state, every error of the source as a value, and every
  loop as a recursive function over the list the source ranges over.
\<close>

subsection \<open>Values held by the cluster\<close>

text \<open>
  A live object is a JSON document (\<open>map[string]interface{}\<close> in Go). An object of the
  document is a finite map, so that a key occurs once, as in a Go map.
\<close>

datatype json =
    JNull
  | JBool bool
  | JNumber string
  | JString string
  | JArray "json list"
  | JObject "(string, json) fmap"

definition members :: "json \<Rightarrow> (string, json) fmap" where
  "members t = (case t of JObject m \<Rightarrow> m | _ \<Rightarrow> fmempty)"

definition field :: "json \<Rightarrow> string \<Rightarrow> json option" where
  "field t k = fmlookup (members t) k"

fun nested :: "json \<Rightarrow> string list \<Rightarrow> json option" where
  "nested t [] = Some t"
| "nested t (k # ks) = (case field t k of None \<Rightarrow> None | Some v \<Rightarrow> nested v ks)"

definition is_JString :: "json \<Rightarrow> bool" where
  "is_JString v = (case v of JString _ \<Rightarrow> True | _ \<Rightarrow> False)"

definition string_of :: "json \<Rightarrow> string" where
  "string_of v = (case v of JString s \<Rightarrow> s | _ \<Rightarrow> [])"

text \<open>\<open>AntecedentAnnotation\<close>, line 33 of the source.\<close>

definition AntecedentAnnotation :: string where
  "AntecedentAnnotation = ''helm.fluxcd.io/antecedent''"

text \<open>
  \<open>res.GetAnnotations()\<close> of apimachinery reads \<open>metadata.annotations\<close> as a map of
  strings; a map with a value that is not a string reads as the nil map.
\<close>

definition GetAnnotations :: "json \<Rightarrow> (string, string) fmap" where
  "GetAnnotations res =
     (case nested res [''metadata'', ''annotations''] of
        Some (JObject m) \<Rightarrow>
          (if fmpred (\<lambda>_ v. is_JString v) m then fmmap string_of m else fmempty)
      | _ \<Rightarrow> fmempty)"

subsection \<open>Errors\<close>

text \<open>
  The errors a request can end in, by the classes the source asks about
  (\<open>net.IsConnectionReset\<close>, \<open>errors.IsInternalError\<close>, \<open>errors.IsTimeout\<close>,
  \<open>errors.IsTooManyRequests\<close>, \<open>errors.SuggestsClientDelay\<close>), and the others.
  The predicates take Go's \<open>err\<close>, which may be \<open>nil\<close> (\<open>None\<close>).
\<close>

datatype error =
    ConnectionReset
  | InternalError
  | Timeout
  | TooManyRequests
  | RetryAfter nat
  | NotFound
  | BadRequest
  | UnsupportedMediaType
  | Failure string

definition IsConnectionReset :: "error option \<Rightarrow> bool" where
  "IsConnectionReset err = (err = Some ConnectionReset)"

definition IsInternalError :: "error option \<Rightarrow> bool" where
  "IsInternalError err = (err = Some InternalError)"

definition IsTimeout :: "error option \<Rightarrow> bool" where
  "IsTimeout err = (err = Some Timeout)"

definition IsTooManyRequests :: "error option \<Rightarrow> bool" where
  "IsTooManyRequests err = (err = Some TooManyRequests)"

definition SuggestsClientDelay :: "error option \<Rightarrow> nat \<times> bool" where
  "SuggestsClientDelay err = (case err of Some (RetryAfter n) \<Rightarrow> (n, True) | _ \<Rightarrow> (0, False))"

subsection \<open>Descriptors, releases and the cluster\<close>

text \<open>
  A descriptor is an \<open>unstructured.Unstructured\<close> read from the manifest. The source reads
  it through its accessors only, which are the selectors here: \<open>GroupVersionKind()\<close>
  (group, version and kind), \<open>GetNamespace()\<close>, \<open>GetName()\<close>, \<open>GetKind()\<close>,
  and \<open>IsList()\<close> and \<open>ToList()\<close>: \<open>Items\<close> is \<open>None\<close> for a document
  that is no list, and otherwise what \<open>ToList()\<close> returns, the items or an error.
\<close>

datatype unstructured =
  Unstructured
    (GetGroup: string)
    (GetVersion: string)
    (GetKind: string)
    (GetNamespace: string)
    (GetName: string)
    (Items: "(error + unstructured list) option")

definition IsList :: "unstructured \<Rightarrow> bool" where
  "IsList u = (Items u \<noteq> None)"

definition ToList :: "unstructured \<Rightarrow> error + unstructured list" where
  "ToList u = (case Items u of None \<Rightarrow> Inr [] | Some l \<Rightarrow> l)"

definition SetNamespace :: "string \<Rightarrow> unstructured \<Rightarrow> unstructured" where
  "SetNamespace ns obj =
     Unstructured (GetGroup obj) (GetVersion obj) (GetKind obj) ns (GetName obj) (Items obj)"

record Release =
  Manifest :: string
  Namespace :: string

text \<open>A \<open>resource.ID\<close> is used through \<open>String()\<close> only.\<close>

datatype ID = ID (String: string)

type_synonym GroupVersionResource = "string \<times> string \<times> string"

type_synonym resource_key = "GroupVersionResource \<times> string \<times> string"

datatype PatchType = JSONPatchType | MergePatchType | StrategicMergePatchType | ApplyPatchType

datatype request =
    GetRequest GroupVersionResource string string
  | PatchRequest GroupVersionResource string string PatchType string

text \<open>
  The cluster behind the dynamic client: the objects it holds, addressed by resource type,
  namespace and name; the fate of the coming requests (\<open>Some e\<close>: the request fails with
  \<open>e\<close>, \<open>None\<close> or no entry: it is served from the objects); and the requests
  received so far, oldest first.
\<close>

record cluster =
  objects :: "resource_key \<Rightarrow> json option"
  outcomes :: "error option list"
  requests :: "request list"

definition next_outcome :: "cluster \<Rightarrow> error option \<times> cluster" where
  "next_outcome c =
     (case outcomes c of
        [] \<Rightarrow> (None, c)
      | e # es \<Rightarrow> (e, c\<lparr>outcomes := es\<rparr>))"

text \<open>\<open>client.Resource(r).Namespace(ns).Get(name, opts)\<close>.\<close>

definition client_Get ::
  "GroupVersionResource \<Rightarrow> string \<Rightarrow> string \<Rightarrow> cluster \<Rightarrow> (error + json) \<times> cluster" where
  "client_Get r ns name c =
     (let c1 = c\<lparr>requests := requests c @ [GetRequest r ns name]\<rparr>;
          (fault, c2) = next_outcome c1
      in case fault of
           Some e \<Rightarrow> (Inl e, c2)
         | None \<Rightarrow>
             (case objects c2 (r, ns, name) of
                None \<Rightarrow> (Inl NotFound, c2)
              | Some obj \<Rightarrow> (Inr obj, c2)))"

text \<open>
  What the caller's \<open>rest.Config\<close> leads to: whether \<open>dynamic.NewForConfig\<close> and
  \<open>discovery.NewDiscoveryClientForConfig\<close> fail, and what
  \<open>restmapper.GetAPIGroupResources\<close> returns: an error, or the table behind
  \<open>RESTMapping(groupKind, version)\<close>.
\<close>

type_synonym RESTMapper = "string \<times> string \<Rightarrow> string \<Rightarrow> error + GroupVersionResource"

record Config =
  NewForConfig :: "error option"
  NewDiscoveryClientForConfig :: "error option"
  GetAPIGroupResources :: "error + RESTMapper"

text \<open>\<open>buildDiscoveryRestMapper\<close>, lines 161-171.\<close>

definition buildDiscoveryRestMapper :: "Config \<Rightarrow> error + RESTMapper" where
  "buildDiscoveryRestMapper kubeConfig =
     (case NewDiscoveryClientForConfig kubeConfig of
        Some err \<Rightarrow> Inl err
      | None \<Rightarrow>
          (case GetAPIGroupResources kubeConfig of
             Inl err \<Rightarrow> Inl err
           | Inr groupResources \<Rightarrow> Inr groupResources))"

subsection \<open>Decomposition of the manifest\<close>

text \<open>
  The logger: \<open>log.NewNopLogger()\<close> drops what it is given, any other logger keeps the
  entries in the order they were logged.
\<close>

datatype entry =
    LogErr error
  | LogMappingFailed "string \<times> string \<times> string" error
  | LogPatchFailed string string error

datatype Logger = NopLogger | Recorder "entry list"

fun Log :: "entry \<Rightarrow> Logger \<Rightarrow> Logger" where
  "Log e NopLogger = NopLogger"
| "Log e (Recorder es) = Recorder (es @ [e])"

text \<open>
  What the source takes from its libraries to read a manifest:
  \<open>releaseutil.SplitManifests\<close> (the documents of the text, listed in manifest order;
  Helm returns them as a Go map from the keys \<open>manifest-0\<close>, \<open>manifest-1\<close>, ... to
  the documents), \<open>yaml.Unmarshal\<close> into an \<open>Unstructured\<close>, and
  \<open>range_map\<close>: the order in which \<open>range\<close> visits the entries of that map in
  this run. Go does not fix the order of a range over a map.
\<close>

record Libraries =
  SplitManifests :: "string \<Rightarrow> string list"
  Unmarshal :: "string \<Rightarrow> error + unstructured"
  range_map :: "string list \<Rightarrow> string list"

text \<open>The loop of lines 137-157, over the documents in the order the range visits them.\<close>

fun decompose_loop ::
  "Libraries \<Rightarrow> string list \<Rightarrow> unstructured list \<Rightarrow> Logger \<Rightarrow> unstructured list \<times> Logger" where
  "decompose_loop lib [] objs logger = (objs, logger)"
| "decompose_loop lib (manifest # manifests) objs logger =
     (case Unmarshal lib manifest of
        Inl err \<Rightarrow> decompose_loop lib manifests objs logger
      | Inr u \<Rightarrow>
          if IsList u then
            (case ToList u of
               Inl err \<Rightarrow> decompose_loop lib manifests objs (Log (LogErr err) logger)
             | Inr l \<Rightarrow> decompose_loop lib manifests (objs @ l) logger)
          else decompose_loop lib manifests (objs @ [u]) logger)"

text \<open>\<open>releaseManifestToUnstructured\<close>, lines 134-159.\<close>

definition releaseManifestToUnstructured ::
  "Libraries \<Rightarrow> string \<Rightarrow> Logger \<Rightarrow> unstructured list \<times> Logger" where
  "releaseManifestToUnstructured lib manifest logger =
     decompose_loop lib (range_map lib (SplitManifests lib manifest)) [] logger"

subsection \<open>Verification\<close>

text \<open>
  \<open>wait.ExponentialBackoff(backoff, condition)\<close> calls the condition until it answers
  true or returns an error, at most \<open>backoff.Steps\<close> times, sleeping in between; when the
  steps are used up it returns \<open>ErrWaitTimeout\<close>. The condition is a closure: \<open>'s\<close>
  holds the variables it captures and the cluster it talks to.
\<close>

datatype wait_error = ErrWaitTimeout | ConditionError error

fun ExponentialBackoff ::
  "nat \<Rightarrow> ('s \<Rightarrow> (bool \<times> error option) \<times> 's) \<Rightarrow> 's \<Rightarrow> wait_error option \<times> 's" where
  "ExponentialBackoff 0 condition s = (Some ErrWaitTimeout, s)"
| "ExponentialBackoff (Suc steps) condition s =
     (case condition s of
        ((ok, Some err), s') \<Rightarrow> (Some (ConditionError err), s')
      | ((ok, None), s') \<Rightarrow>
          if ok then (None, s') else ExponentialBackoff steps condition s')"

text \<open>
  The closure of lines 69-85. It captures \<open>res\<close> and \<open>err\<close> of the enclosing block
  and assigns both at every call.
\<close>

type_synonym fetch_state = "json option \<times> error option \<times> cluster"

definition condition ::
  "GroupVersionResource \<Rightarrow> string \<Rightarrow> string \<Rightarrow> fetch_state \<Rightarrow> (bool \<times> error option) \<times> fetch_state" where
  "condition resource ns name s =
     (case s of (_, _, c) \<Rightarrow>
        (case client_Get resource ns name c of (r, c') \<Rightarrow>
           (let res = (case r of Inr obj \<Rightarrow> Some obj | Inl _ \<Rightarrow> None);
                err = (case r of Inr _ \<Rightarrow> None | Inl e \<Rightarrow> Some e)
            in if IsConnectionReset err \<or> IsInternalError err \<or> IsTimeout err
                    \<or> IsTooManyRequests err
               then ((False, None), (res, err, c'))
               else if snd (SuggestsClientDelay err) then ((False, None), (res, err, c'))
               else if err \<noteq> None then ((False, err), (res, err, c'))
               else ((True, None), (res, err, c')))))"

text \<open>
  Lines 66-89: the block that declares \<open>res\<close> and \<open>err\<close> as nil, runs the backoff and
  drops what \<open>wait.ExponentialBackoff\<close> returns; what it leaves is \<open>res\<close>, \<open>err\<close>
  and the cluster.
\<close>

definition fetch ::
  "nat \<Rightarrow> GroupVersionResource \<Rightarrow> string \<Rightarrow> string \<Rightarrow> cluster \<Rightarrow> fetch_state" where
  "fetch steps resource ns name c =
     snd (ExponentialBackoff steps (condition resource ns name) (None, None, c))"

text \<open>
  What a call ends in: it returns, or it panics (a nil \<open>res\<close> is dereferenced at line 91
  when there was neither an object nor an error, which takes a backoff of no steps).
\<close>

datatype 'a ending = Return 'a | Panic

text \<open>
  The loop of lines 56-95. \<open>None\<close>: the descriptors are exhausted and control reaches
  line 96; \<open>Some e\<close>: the call ended inside the loop.
\<close>

fun verify_loop ::
  "RESTMapper \<Rightarrow> nat \<Rightarrow> Release \<Rightarrow> ID \<Rightarrow> unstructured list \<Rightarrow> cluster
     \<Rightarrow> (bool \<times> string \<times> error option) ending option \<times> cluster" where
  "verify_loop restMap steps rel resourceID [] c = (None, c)"
| "verify_loop restMap steps rel resourceID (obj # objs) c =
     (case restMap (GetGroup obj, GetKind obj) (GetVersion obj) of
        Inl err \<Rightarrow> verify_loop restMap steps rel resourceID objs c
      | Inr resource \<Rightarrow>
          (let obj' = (if GetNamespace obj = [] then SetNamespace (Namespace rel) obj else obj)
           in case fetch steps resource (GetNamespace obj') (GetName obj') c of
                (res, Some err, c') \<Rightarrow> (Some (Return (False, [], Some err)), c')
              | (None, None, c') \<Rightarrow> (Some Panic, c')
              | (Some r, None, c') \<Rightarrow>
                  (case fmlookup (GetAnnotations r) AntecedentAnnotation of
                     Some v \<Rightarrow> (Some (Return (v = String resourceID, v, None)), c')
                   | None \<Rightarrow> verify_loop restMap steps rel resourceID objs c')))"

text \<open>
  \<open>annotatedWithResourceID\<close>, lines 45-97. \<open>steps\<close> is \<open>retry.DefaultBackoff.Steps\<close>.
\<close>

definition annotatedWithResourceID ::
  "Libraries \<Rightarrow> nat \<Rightarrow> Config \<Rightarrow> Release \<Rightarrow> ID \<Rightarrow> cluster
     \<Rightarrow> (bool \<times> string \<times> error option) ending \<times> cluster" where
  "annotatedWithResourceID lib steps kubeConfig rel resourceID c =
     (case NewForConfig kubeConfig of
        Some err \<Rightarrow> (Return (False, [], Some err), c)
      | None \<Rightarrow>
          (case buildDiscoveryRestMapper kubeConfig of
             Inl err \<Rightarrow> (Return (False, [], Some err), c)
           | Inr restMap \<Rightarrow>
               (let objs = fst (releaseManifestToUnstructured lib (Manifest rel) NopLogger)
                in case verify_loop restMap steps rel resourceID objs c of
                     (Some e, c') \<Rightarrow> (e, c')
                   | (None, c') \<Rightarrow> (Return (True, [], None), c'))))"

subsection \<open>The cluster's side of a patch\<close>

text \<open>
  The source sends a patch of type \<open>types.MergePatchType\<close>; what it does to the object is
  the server's work: the body is decoded as JSON and merged into the object as RFC 7386 says.
  Both are written out here, so that what the body of line 112 does can be stated.

  The decoder reads one JSON value: objects, arrays, strings with their escapes, numbers
  (kept as written) and the three literals; a key that occurs twice keeps its last value,
  as in Go. Bytes outside ASCII are kept as they are; the theorems below that decode a
  document take it in ASCII. The fuel bounds the depth of the calls; the length of the
  text is enough, since every call consumes a character.
\<close>

definition is_ws :: "char \<Rightarrow> bool" where
  "is_ws c = (c = CHR '' '' \<or> c = CHR 0x09 \<or> c = CHR 0x0A \<or> c = CHR 0x0D)"

definition skip_ws :: "string \<Rightarrow> string" where
  "skip_ws s = dropWhile is_ws s"

definition is_control :: "char \<Rightarrow> bool" where
  "is_control c = (of_char c < (32::nat))"

definition unescape :: "char \<Rightarrow> char option" where
  "unescape e =
     (if e = CHR 0x22 then Some (CHR 0x22)
      else if e = CHR 0x5C then Some (CHR 0x5C)
      else if e = CHR ''/'' then Some (CHR ''/'')
      else if e = CHR ''b'' then Some (CHR 0x08)
      else if e = CHR ''f'' then Some (CHR 0x0C)
      else if e = CHR ''n'' then Some (CHR 0x0A)
      else if e = CHR ''r'' then Some (CHR 0x0D)
      else if e = CHR ''t'' then Some (CHR 0x09)
      else None)"

text \<open>
  The escape \<open>u\<close> with four hexadecimal digits, as Go's \<open>encoding/json\<close> reads it: the
  code point is written in UTF-8; the first half of a surrogate pair that is followed by the
  escape of a second half gives the code point of the pair; any other surrogate gives
  U+FFFD. \<open>unicode_escape\<close> takes the text after the \<open>u\<close> and returns the bytes and the
  number of characters it has read.
\<close>

definition hex_digit :: "char \<Rightarrow> int option" where
  "hex_digit ch =
     (let n = (of_char ch :: int)
      in if 48 \<le> n \<and> n \<le> 57 then Some (n - 48)
         else if 97 \<le> n \<and> n \<le> 102 then Some (n - 87)
         else if 65 \<le> n \<and> n \<le> 70 then Some (n - 55)
         else None)"

definition getu4 :: "string \<Rightarrow> int option" where
  "getu4 s =
     (case s of
        a # b # c # d # _ \<Rightarrow>
          (case (hex_digit a, hex_digit b, hex_digit c, hex_digit d) of
             (Some w, Some x, Some y, Some z) \<Rightarrow> Some (((w * 16 + x) * 16 + y) * 16 + z)
           | _ \<Rightarrow> None)
      | _ \<Rightarrow> None)"

definition EncodeRune :: "int \<Rightarrow> string" where
  "EncodeRune r =
     (if r < 128 then [char_of r]
      else if r < 2048 then [char_of (192 + r div 64), char_of (128 + r mod 64)]
      else if r < 65536 then
        [char_of (224 + r div 4096), char_of (128 + (r div 64) mod 64),
         char_of (128 + r mod 64)]
      else
        [char_of (240 + r div 262144), char_of (128 + (r div 4096) mod 64),
         char_of (128 + (r div 64) mod 64), char_of (128 + r mod 64)])"

definition low_surrogate :: "string \<Rightarrow> int option" where
  "low_surrogate s =
     (case s of
        b # u # r \<Rightarrow>
          if b = CHR 0x5C \<and> u = CHR ''u'' then
            (case getu4 r of
               None \<Rightarrow> None
             | Some rr1 \<Rightarrow> if 56320 \<le> rr1 \<and> rr1 < 57344 then Some rr1 else None)
          else None
      | _ \<Rightarrow> None)"

definition unicode_escape :: "string \<Rightarrow> (string \<times> nat) option" where
  "unicode_escape s =
     (case getu4 s of
        None \<Rightarrow> None
      | Some rr \<Rightarrow>
          if 55296 \<le> rr \<and> rr < 57344 then
            (case (if rr < 56320 then low_surrogate (drop 4 s) else None) of
               Some rr1 \<Rightarrow>
                 Some (EncodeRune (65536 + (rr - 55296) * 1024 + (rr1 - 56320)), 10)
             | None \<Rightarrow> Some (EncodeRune 65533, 4))
          else Some (EncodeRune rr, 4))"

text \<open>The characters of a string after its opening quote, up to the closing one.\<close>

function string_body :: "string \<Rightarrow> (string \<times> string) option" where
  "string_body [] = None"
| "string_body (c # cs) =
     (if c = CHR 0x22 then Some ([], cs)
      else if c = CHR 0x5C then
        (case cs of
           [] \<Rightarrow> None
         | e # cs' \<Rightarrow>
             if e = CHR ''u'' then
               (case unicode_escape cs' of
                  None \<Rightarrow> None
                | Some (bytes, n) \<Rightarrow>
                    (case string_body (drop n cs') of
                       None \<Rightarrow> None
                     | Some (str, rest) \<Rightarrow> Some (bytes @ str, rest)))
             else
               (case unescape e of
                  None \<Rightarrow> None
                | Some ch \<Rightarrow>
                    (case string_body cs' of
                       None \<Rightarrow> None
                     | Some (str, rest) \<Rightarrow> Some (ch # str, rest))))
      else if is_control c then None
      else (case string_body cs of
              None \<Rightarrow> None
            | Some (str, rest) \<Rightarrow> Some (c # str, rest)))"
  by pat_completeness auto
termination
  by (relation "measure length") simp_all

definition is_digit :: "char \<Rightarrow> bool" where
  "is_digit c = (c \<in> set ''0123456789'')"

definition digits :: "string \<Rightarrow> bool" where
  "digits s = (s \<noteq> [] \<and> list_all is_digit s)"

definition valid_exponent :: "string \<Rightarrow> bool" where
  "valid_exponent s =
     (case s of
        [] \<Rightarrow> True
      | e # r \<Rightarrow>
          (e = CHR ''e'' \<or> e = CHR ''E'') \<and>
          (case r of
             [] \<Rightarrow> False
           | sg # r' \<Rightarrow> if sg = CHR ''+'' \<or> sg = CHR ''-'' then digits r' else digits r))"

definition valid_fraction :: "string \<Rightarrow> bool" where
  "valid_fraction s =
     (case s of
        [] \<Rightarrow> True
      | d # r \<Rightarrow>
          if d = CHR ''.'' then takeWhile is_digit r \<noteq> [] \<and> valid_exponent (dropWhile is_digit r)
          else valid_exponent s)"

definition valid_number :: "string \<Rightarrow> bool" where
  "valid_number lexeme =
     (let s = (case lexeme of [] \<Rightarrow> [] | m # r \<Rightarrow> if m = CHR ''-'' then r else lexeme);
          whole = takeWhile is_digit s
      in (whole = ''0'' \<or> (whole \<noteq> [] \<and> hd whole \<noteq> CHR ''0''))
         \<and> valid_fraction (dropWhile is_digit s))"

definition is_number_char :: "char \<Rightarrow> bool" where
  "is_number_char c = (c \<in> set ''-+.eE0123456789'')"

definition scalar :: "string \<Rightarrow> (json \<times> string) option" where
  "scalar s =
     (if take 4 s = ''null'' then Some (JNull, drop 4 s)
      else if take 4 s = ''true'' then Some (JBool True, drop 4 s)
      else if take 5 s = ''false'' then Some (JBool False, drop 5 s)
      else if valid_number (takeWhile is_number_char s)
        then Some (JNumber (takeWhile is_number_char s), dropWhile is_number_char s)
      else None)"

fun parse_value :: "nat \<Rightarrow> string \<Rightarrow> (json \<times> string) option"
  and parse_elements :: "nat \<Rightarrow> json list \<Rightarrow> string \<Rightarrow> (json list \<times> string) option"
  and parse_members ::
    "nat \<Rightarrow> (string, json) fmap \<Rightarrow> string \<Rightarrow> ((string, json) fmap \<times> string) option" where
  "parse_value 0 s = None"
| "parse_value (Suc n) s =
     (case skip_ws s of
        [] \<Rightarrow> None
      | c # cs \<Rightarrow>
          if c = CHR ''{'' then
            (case skip_ws cs of
               [] \<Rightarrow> None
             | d # r \<Rightarrow>
                 if d = CHR ''}'' then Some (JObject fmempty, r)
                 else (case parse_members n fmempty cs of
                         None \<Rightarrow> None
                       | Some (m, r') \<Rightarrow> Some (JObject m, r')))
          else if c = CHR ''['' then
            (case skip_ws cs of
               [] \<Rightarrow> None
             | d # r \<Rightarrow>
                 if d = CHR '']'' then Some (JArray [], r)
                 else (case parse_elements n [] cs of
                         None \<Rightarrow> None
                       | Some (xs, r') \<Rightarrow> Some (JArray xs, r')))
          else if c = CHR 0x22 then
            (case string_body cs of
               None \<Rightarrow> None
             | Some (str, r) \<Rightarrow> Some (JString str, r))
          else scalar (c # cs))"
| "parse_elements 0 acc s = None"
| "parse_elements (Suc n) acc s =
     (case parse_value n s of
        None \<Rightarrow> None
      | Some (v, r) \<Rightarrow>
          (case skip_ws r of
             [] \<Rightarrow> None
           | d # r' \<Rightarrow>
               if d = CHR '','' then parse_elements n (acc @ [v]) r'
               else if d = CHR '']'' then Some (acc @ [v], r')
               else None))"
| "parse_members 0 acc s = None"
| "parse_members (Suc n) acc s =
     (case skip_ws s of
        [] \<Rightarrow> None
      | q # cs \<Rightarrow>
          if q \<noteq> CHR 0x22 then None
          else
            (case string_body cs of
               None \<Rightarrow> None
             | Some (k, r) \<Rightarrow>
                 (case skip_ws r of
                    [] \<Rightarrow> None
                  | colon # r1 \<Rightarrow>
                      if colon \<noteq> CHR '':'' then None
                      else
                        (case parse_value n r1 of
                           None \<Rightarrow> None
                         | Some (v, r2) \<Rightarrow>
                             (case skip_ws r2 of
                                [] \<Rightarrow> None
                              | d # r3 \<Rightarrow>
                                  if d = CHR '','' then parse_members n (fmupd k v acc) r3
                                  else if d = CHR ''}'' then Some (fmupd k v acc, r3)
                                  else None)))))"

definition decode_json :: "string \<Rightarrow> json option" where
  "decode_json s =
     (case parse_value (length s) s of
        None \<Rightarrow> None
      | Some (v, r) \<Rightarrow> if skip_ws r = [] then Some v else None)"

text \<open>
  RFC 7386, section 2, \<open>MergePatch(Target, Patch)\<close>, with the patch as the first argument:
  a patch that is no object replaces the target; a patch that is an object is merged member
  by member into the target (taken as the empty object when it is none): a null member
  removes the name, any other member is merged into what the target holds under the name.
\<close>

definition target_at :: "(string, json) fmap \<Rightarrow> string \<Rightarrow> json" where
  "target_at tm k = (case fmlookup tm k of None \<Rightarrow> JNull | Some v \<Rightarrow> v)"

primrec MergePatch :: "json \<Rightarrow> json \<Rightarrow> json" where
  "MergePatch JNull t = JNull"
| "MergePatch (JBool b) t = JBool b"
| "MergePatch (JNumber n) t = JNumber n"
| "MergePatch (JString s) t = JString s"
| "MergePatch (JArray xs) t = JArray xs"
| "MergePatch (JObject pm) t =
     JObject
       (fmadd (fmfilter (\<lambda>k. k |\<notin>| fmdom pm) (members t))
          (fmmap_keys (\<lambda>k merge. merge (target_at (members t) k))
             (fmfilter (\<lambda>k. fmlookup pm k \<noteq> Some JNull) (fmmap MergePatch pm))))"

text \<open>\<open>client.Resource(r).Namespace(ns).Patch(name, pt, data, opts)\<close>.\<close>

definition client_Patch ::
  "GroupVersionResource \<Rightarrow> string \<Rightarrow> string \<Rightarrow> PatchType \<Rightarrow> string \<Rightarrow> cluster
     \<Rightarrow> (error + json) \<times> cluster" where
  "client_Patch r ns name pt data c =
     (let c1 = c\<lparr>requests := requests c @ [PatchRequest r ns name pt data]\<rparr>;
          (fault, c2) = next_outcome c1
      in case fault of
           Some e \<Rightarrow> (Inl e, c2)
         | None \<Rightarrow>
             (case objects c2 (r, ns, name) of
                None \<Rightarrow> (Inl NotFound, c2)
              | Some obj \<Rightarrow>
                  if pt \<noteq> MergePatchType then (Inl UnsupportedMediaType, c2)
                  else
                    (case decode_json data of
                       None \<Rightarrow> (Inl BadRequest, c2)
                     | Some patch \<Rightarrow>
                         (let obj' = MergePatch patch obj
                          in (Inr obj', c2\<lparr>objects := (objects c2)((r, ns, name) \<mapsto> obj')\<rparr>)))))"

subsection \<open>Claiming\<close>

text \<open>The loop of lines 114-128.\<close>

fun annotate_loop ::
  "RESTMapper \<Rightarrow> Release \<Rightarrow> string \<Rightarrow> unstructured list \<Rightarrow> Logger \<Rightarrow> cluster
     \<Rightarrow> Logger \<times> cluster" where
  "annotate_loop restMap rel annotation [] logger c = (logger, c)"
| "annotate_loop restMap rel annotation (obj # objs) logger c =
     (case restMap (GetGroup obj, GetKind obj) (GetVersion obj) of
        Inl err \<Rightarrow>
          annotate_loop restMap rel annotation objs
            (Log (LogMappingFailed (GetGroup obj, GetVersion obj, GetKind obj) err) logger) c
      | Inr resource \<Rightarrow>
          (let obj' = (if GetNamespace obj = [] then SetNamespace (Namespace rel) obj else obj)
           in case client_Patch resource (GetNamespace obj') (GetName obj') MergePatchType
                     annotation c of
                (Inl err, c') \<Rightarrow>
                  annotate_loop restMap rel annotation objs
                    (Log (LogPatchFailed (GetKind obj') (GetName obj') err) logger) c'
              | (Inr _, c') \<Rightarrow> annotate_loop restMap rel annotation objs logger c'))"

text \<open>The body of line 112.\<close>

definition annotation_body :: "ID \<Rightarrow> string" where
  \<open>annotation_body resourceID =
     ''{"metadata":{"annotations":{"'' @ AntecedentAnnotation @ ''":"'' @ String resourceID
       @ ''"}}}''\<close>

text \<open>\<open>annotateWithResourceID\<close>, lines 102-130: the error it returns, the logger and the cluster.\<close>

definition annotateWithResourceID ::
  "Libraries \<Rightarrow> Logger \<Rightarrow> Config \<Rightarrow> Release \<Rightarrow> ID \<Rightarrow> cluster
     \<Rightarrow> error option \<times> Logger \<times> cluster" where
  "annotateWithResourceID lib logger kubeConfig rel resourceID c =
     (case NewForConfig kubeConfig of
        Some err \<Rightarrow> (Some err, logger, c)
      | None \<Rightarrow>
          (case buildDiscoveryRestMapper kubeConfig of
             Inl err \<Rightarrow> (Some err, logger, c)
           | Inr restMap \<Rightarrow>
               (let annotation = annotation_body resourceID
                in case releaseManifestToUnstructured lib (Manifest rel) logger of
                     (objs, logger1) \<Rightarrow>
                       (case annotate_loop restMap rel annotation objs logger1 c of
                          (logger2, c') \<Rightarrow> (None, logger2, c')))))"

subsection \<open>Words of the specification\<close>

text \<open>
  The errors the specification calls transient: connection reset, internal-server error,
  timeout, too-many-requests, or an error that suggests a delay to the client.
\<close>

definition transient :: "error \<Rightarrow> bool" where
  "transient e =
     (IsConnectionReset (Some e) \<or> IsInternalError (Some e) \<or> IsTimeout (Some e)
      \<or> IsTooManyRequests (Some e) \<or> snd (SuggestsClientDelay (Some e)))"

text \<open>The cluster after it has received the request \<open>rq\<close> \<open>n\<close> times.\<close>

definition asked :: "nat \<Rightarrow> request \<Rightarrow> cluster \<Rightarrow> cluster" where
  "asked n rq c = c\<lparr>outcomes := drop n (outcomes c), requests := requests c @ replicate n rq\<rparr>"

text \<open>
  The coming requests fail only transiently, and never \<open>steps\<close> times in a row (so
  \<open>steps\<close> is not zero).
\<close>

definition failures_ahead :: "error option list \<Rightarrow> error option list" where
  "failures_ahead os = takeWhile (\<lambda>e. e \<noteq> None) os"

fun tolerable :: "nat \<Rightarrow> error option list \<Rightarrow> bool" where
  "tolerable steps [] = (0 < steps)"
| "tolerable steps (e # os) =
     (length (failures_ahead (e # os)) < steps
      \<and> (case e of None \<Rightarrow> True | Some x \<Rightarrow> transient x)
      \<and> tolerable steps os)"

text \<open>The namespace under which a descriptor is addressed, in the words of the specification.\<close>

definition addressed_namespace :: "Release \<Rightarrow> unstructured \<Rightarrow> string" where
  "addressed_namespace rel obj = (if GetNamespace obj = [] then Namespace rel else GetNamespace obj)"

text \<open>
  The descriptors the specification expects of one document: none when it does not parse,
  the items in place of a list (none when the list cannot be read), the document itself
  otherwise; and of a manifest: those of its documents, in manifest order.
\<close>

definition expand :: "Libraries \<Rightarrow> string \<Rightarrow> unstructured list" where
  "expand lib document =
     (case Unmarshal lib document of
        Inl err \<Rightarrow> []
      | Inr u \<Rightarrow>
          if IsList u then (case ToList u of Inl err \<Rightarrow> [] | Inr l \<Rightarrow> l) else [u])"

definition in_manifest_order :: "Libraries \<Rightarrow> string \<Rightarrow> unstructured list" where
  "in_manifest_order lib manifest = concat (map (expand lib) (SplitManifests lib manifest))"

text \<open>What one document leaves in the log: the error of a list that cannot be read, nothing else.\<close>

definition logged :: "Libraries \<Rightarrow> string \<Rightarrow> entry list" where
  "logged lib document =
     (case Unmarshal lib document of
        Inl err \<Rightarrow> []
      | Inr u \<Rightarrow>
          if IsList u then (case ToList u of Inl err \<Rightarrow> [LogErr err] | Inr l \<Rightarrow> []) else [])"

text \<open>What a logger holds.\<close>

fun entries :: "Logger \<Rightarrow> entry list" where
  "entries NopLogger = []"
| "entries (Recorder es) = es"

text \<open>
  The patches the specification expects of a claim: one for every descriptor whose type
  resolves, in the order of the descriptors, addressed by the resolved type, the namespace
  of the descriptor or else of the release, and the name.
\<close>

definition patch_requests ::
  "RESTMapper \<Rightarrow> Release \<Rightarrow> string \<Rightarrow> unstructured list \<Rightarrow> request list" where
  "patch_requests restMap rel body objs =
     concat (map (\<lambda>obj.
       case restMap (GetGroup obj, GetKind obj) (GetVersion obj) of
         Inl err \<Rightarrow> []
       | Inr resource \<Rightarrow>
           [PatchRequest resource (addressed_namespace rel obj) (GetName obj) MergePatchType
              body]) objs)"

text \<open>A request that reads.\<close>

definition is_Get :: "request \<Rightarrow> bool" where
  "is_Get rq = (case rq of GetRequest _ _ _ \<Rightarrow> True | PatchRequest _ _ _ _ _ \<Rightarrow> False)"

text \<open>
  A text that a JSON string holds as it is: ASCII, no control character, no double quote
  and no backslash.
\<close>

definition plain_char :: "char \<Rightarrow> bool" where
  "plain_char ch = (32 \<le> (of_char ch :: nat) \<and> (of_char ch :: nat) < 128
     \<and> ch \<noteq> CHR 0x22 \<and> ch \<noteq> CHR 0x5C)"

definition plain_text :: "string \<Rightarrow> bool" where
  "plain_text s = list_all plain_char s"

text \<open>
  The document the specification means the claim to send: the antecedent annotation, set to
  a value, and nothing else; and the path of that annotation in an object.
\<close>

definition antecedent_path :: "string list" where
  "antecedent_path = [''metadata'', ''annotations'', AntecedentAnnotation]"

definition annotation_patch :: "string \<Rightarrow> json" where
  "annotation_patch v =
     JObject (fmupd ''metadata''
       (JObject (fmupd ''annotations''
          (JObject (fmupd AntecedentAnnotation (JString v) fmempty)) fmempty)) fmempty)"

text \<open>A path that neither leads to the annotation nor lies below it.\<close>

definition apart :: "string list \<Rightarrow> string list \<Rightarrow> bool" where
  "apart p q = (\<not> prefix p q \<and> \<not> prefix q p)"

text \<open>The patch that sets the one value at the end of a path.\<close>

fun path_patch :: "string list \<Rightarrow> json \<Rightarrow> json" where
  "path_patch [] v = v"
| "path_patch (k # ks) v = JObject (fmupd k (path_patch ks v) fmempty)"

text \<open>
  The byte string of the specification, \<open>{"metadata":{"annotations":{"helm.fluxcd.io/antecedent":"<id>"}}}\<close>,
  before and after the identifier; and the body of a request.
\<close>

definition body_prefix :: string where
  \<open>body_prefix = ''{"metadata":{"annotations":{"helm.fluxcd.io/antecedent":"''\<close>

definition body_suffix :: string where
  \<open>body_suffix = ''"}}}''\<close>

definition request_body :: "request \<Rightarrow> string option" where
  "request_body rq =
     (case rq of GetRequest _ _ _ \<Rightarrow> None | PatchRequest _ _ _ _ data \<Rightarrow> Some data)"

subsection \<open>A release and a cluster to run the functions on\<close>

text \<open>
  A manifest of four documents: a custom resource whose kind the cluster does not know, a
  text that is no YAML, a Deployment without a namespace, and a List of a Service (in the
  namespace \<open>other\<close>) and a ConfigMap.
\<close>

definition widget :: unstructured where
  "widget = Unstructured ''example.org'' ''v1'' ''Widget'' [] ''w'' None"

definition deployment :: unstructured where
  "deployment = Unstructured ''apps'' ''v1'' ''Deployment'' [] ''web'' None"

definition service :: unstructured where
  "service = Unstructured [] ''v1'' ''Service'' ''other'' ''svc'' None"

definition configmap :: unstructured where
  "configmap = Unstructured [] ''v1'' ''ConfigMap'' [] ''cm'' None"

definition example_lib :: Libraries where
  "example_lib = \<lparr>
     SplitManifests = (\<lambda>m. if m = ''all'' then [''crd'', ''junk'', ''deploy'', ''list''] else []),
     Unmarshal = (\<lambda>d.
        if d = ''crd'' then Inr widget
        else if d = ''deploy'' then Inr deployment
        else if d = ''list'' then
          Inr (Unstructured [] ''v1'' ''List'' [] [] (Some (Inr [service, configmap])))
        else Inl (Failure ''yaml'')),
     range_map = (\<lambda>manifests. manifests) \<rparr>"

definition example_restMap :: RESTMapper where
  "example_restMap gk v =
     (if gk = (''apps'', ''Deployment'') \<and> v = ''v1'' then Inr (''apps'', ''v1'', ''deployments'')
      else if gk = ([], ''Service'') \<and> v = ''v1'' then Inr ([], ''v1'', ''services'')
      else if gk = ([], ''ConfigMap'') \<and> v = ''v1'' then Inr ([], ''v1'', ''configmaps'')
      else Inl (Failure ''no match''))"

definition example_config :: Config where
  "example_config =
     \<lparr> NewForConfig = None, NewDiscoveryClientForConfig = None,
       GetAPIGroupResources = Inr example_restMap \<rparr>"

definition annotated :: "string \<Rightarrow> json" where
  "annotated v =
     JObject (fmap_of_list
       [(''metadata'', JObject (fmap_of_list
          [(''name'', JString ''n''),
           (''annotations'', JObject (fmap_of_list
              [(''owner'', JString ''team''),
               (''helm.fluxcd.io/antecedent'', JString v)]))])),
        (''spec'', JObject (fmap_of_list [(''replicas'', JNumber ''2'')]))])"

definition plain :: json where
  "plain =
     JObject (fmap_of_list
       [(''metadata'', JObject (fmap_of_list [(''name'', JString ''web'')])),
        (''spec'', JObject (fmap_of_list [(''replicas'', JNumber ''2'')]))])"

definition example_objects :: "resource_key \<Rightarrow> json option" where
  "example_objects k =
     (if k = ((''apps'', ''v1'', ''deployments''), ''prod'', ''web'') then Some plain
      else if k = (([], ''v1'', ''services''), ''other'', ''svc'')
        then Some (annotated ''prod:helmrelease/app'')
      else if k = (([], ''v1'', ''configmaps''), ''prod'', ''cm'')
        then Some (annotated ''someone:else/x'')
      else None)"

text \<open>The first request will time out and the third will meet an internal error.\<close>

definition example_cluster :: cluster where
  "example_cluster =
     \<lparr> objects = example_objects, outcomes = [Some Timeout, None, Some InternalError],
       requests = [] \<rparr>"

definition quiet_cluster :: cluster where
  "quiet_cluster = \<lparr> objects = example_objects, outcomes = [], requests = [] \<rparr>"

definition example_release :: Release where
  "example_release = \<lparr> Manifest = ''all'', Namespace = ''prod'' \<rparr>"

definition example_ID :: ID where
  "example_ID = ID ''prod:helmrelease/app''"

text \<open>
  Three more clusters: one that fails twice, transiently, before it answers; one that fails
  once transiently and then refuses; and one that holds no object at all.
\<close>

definition flaky_cluster :: cluster where
  "flaky_cluster =
     \<lparr> objects = example_objects, outcomes = [Some Timeout, Some TooManyRequests, None],
       requests = [] \<rparr>"

definition refusing_cluster :: cluster where
  "refusing_cluster =
     \<lparr> objects = example_objects, outcomes = [Some InternalError, Some (Failure ''forbidden'')],
       requests = [] \<rparr>"

definition bare_cluster :: cluster where
  "bare_cluster = \<lparr> objects = (\<lambda>k. None), outcomes = [], requests = [] \<rparr>"

text \<open>
  A cluster that holds the three known resources of the release, none annotated, and that
  fails now and then; and a release with an empty manifest.
\<close>

definition unclaimed_objects :: "resource_key \<Rightarrow> json option" where
  "unclaimed_objects k =
     (if k = ((''apps'', ''v1'', ''deployments''), ''prod'', ''web'') then Some plain
      else if k = (([], ''v1'', ''services''), ''other'', ''svc'') then Some plain
      else if k = (([], ''v1'', ''configmaps''), ''prod'', ''cm'') then Some plain
      else None)"

definition unclaimed_cluster :: cluster where
  "unclaimed_cluster =
     \<lparr> objects = unclaimed_objects,
       outcomes = [Some Timeout, None, None, Some InternalError, Some (RetryAfter 2)],
       requests = [] \<rparr>"

definition empty_release :: Release where
  "empty_release = \<lparr> Manifest = [], Namespace = ''prod'' \<rparr>"

text \<open>The libraries of the example in a run whose range visits the documents last to first.\<close>

definition reversing_lib :: Libraries where
  "reversing_lib = example_lib\<lparr>range_map := rev\<rparr>"

text \<open>
  Three identifiers that are not plain text: one with a double quote, one with two
  backslashes, and one that closes the string and opens another annotation.
\<close>

definition quoting_ID :: ID where
  \<open>quoting_ID = ID ''a"b''\<close>

definition escaping_ID :: ID where
  "escaping_ID = ID [CHR ''a'', CHR 0x5C, CHR 0x5C, CHR ''b'']"

definition injecting_ID :: ID where
  \<open>injecting_ID = ID ''prod:helmrelease/x","owner":"y''\<close>

definition configmap_key :: resource_key where
  "configmap_key = (([], ''v1'', ''configmaps''), ''prod'', ''cm'')"

definition service_key :: resource_key where
  "service_key = (([], ''v1'', ''services''), ''other'', ''svc'')"

section \<open>Properties\<close>

subsection \<open>Accessors\<close>

lemma GetNamespace_SetNamespace: "GetNamespace (SetNamespace ns obj) = ns"
  by (simp add: SetNamespace_def)

lemma GetName_SetNamespace: "GetName (SetNamespace ns obj) = GetName obj"
  by (simp add: SetNamespace_def)

lemma GetKind_SetNamespace: "GetKind (SetNamespace ns obj) = GetKind obj"
  by (simp add: SetNamespace_def)

subsection \<open>Verification stops at the first annotation\<close>

lemma verify_loop_append:
  "verify_loop restMap steps rel resourceID (xs @ ys) c =
     (case verify_loop restMap steps rel resourceID xs c of
        (None, c1) \<Rightarrow> verify_loop restMap steps rel resourceID ys c1
      | (Some e, c1) \<Rightarrow> (Some e, c1))"
  by (induction xs arbitrary: c)
    (simp_all add: Let_def split: sum.splits prod.splits option.splits)

text \<open>
  Claim C1. When the loop of \<open>annotatedWithResourceID\<close> reaches a descriptor (the ones
  before it ended neither in an error nor in an annotation) whose type resolves and whose
  live object, fetched under the defaulted namespace, carries the antecedent annotation
  with value \<open>v\<close>, the call returns \<open>(v == resourceID.String(), v, nil)\<close>. The cluster it
  leaves is the one the fetch of that object left: nothing is asked about the descriptors
  after it, whatever they are.
\<close>

theorem verify_returns_at_first_annotation:
  assumes client: "NewForConfig kubeConfig = None"
    and mapper: "buildDiscoveryRestMapper kubeConfig = Inr restMap"
    and objs: "fst (releaseManifestToUnstructured lib (Manifest rel) NopLogger)
                 = before @ obj # later"
    and before: "verify_loop restMap steps rel resourceID before c = (None, c1)"
    and resolved: "restMap (GetGroup obj, GetKind obj) (GetVersion obj) = Inr resource"
    and fetched: "fetch steps resource
                    (if GetNamespace obj = [] then Namespace rel else GetNamespace obj)
                    (GetName obj) c1 = (Some live, None, c2)"
    and carried: "fmlookup (GetAnnotations live) AntecedentAnnotation = Some v"
  shows "annotatedWithResourceID lib steps kubeConfig rel resourceID c
           = (Return (v = String resourceID, v, None), c2)"
proof -
  have "verify_loop restMap steps rel resourceID (obj # later) c1
          = (Some (Return (v = String resourceID, v, None)), c2)"
    using resolved fetched carried
    by (cases "GetNamespace obj = []")
      (simp_all add: GetNamespace_SetNamespace GetName_SetNamespace)
  then have "verify_loop restMap steps rel resourceID (before @ obj # later) c
          = (Some (Return (v = String resourceID, v, None)), c2)"
    using before by (simp add: verify_loop_append)
  then show ?thesis
    using client mapper objs by (simp add: annotatedWithResourceID_def)
qed

text \<open>
  On the example: the Widget does not resolve, the Deployment is fetched at the second
  attempt and has no annotation, the Service is fetched at the second attempt and has it;
  the ConfigMap, which carries another value, is never asked for.
\<close>

theorem verify_returns_at_first_annotation_witness:
  "fst (annotatedWithResourceID example_lib 4 example_config example_release example_ID
          example_cluster) = Return (True, ''prod:helmrelease/app'', None)
   \<and> requests (snd (annotatedWithResourceID example_lib 4 example_config example_release
          example_ID example_cluster))
       = [GetRequest (''apps'', ''v1'', ''deployments'') ''prod'' ''web'',
          GetRequest (''apps'', ''v1'', ''deployments'') ''prod'' ''web'',
          GetRequest ([], ''v1'', ''services'') ''other'' ''svc'',
          GetRequest ([], ''v1'', ''services'') ''other'' ''svc'']"
proof -
  define c1 where
    "c1 = snd (verify_loop example_restMap 4 example_release example_ID [widget, deployment]
                 example_cluster)"
  define c2 where "c2 = snd (snd (fetch 4 ([], ''v1'', ''services'') ''other'' ''svc'' c1))"
  have h1: "NewForConfig example_config = None"
    by (simp add: example_config_def)
  have h2: "buildDiscoveryRestMapper example_config = Inr example_restMap"
    by (simp add: buildDiscoveryRestMapper_def example_config_def)
  have h3: "fst (releaseManifestToUnstructured example_lib (Manifest example_release) NopLogger)
              = [widget, deployment] @ service # [configmap]"
    by code_simp
  have "fst (verify_loop example_restMap 4 example_release example_ID [widget, deployment]
               example_cluster) = None"
    by code_simp
  then have h4: "verify_loop example_restMap 4 example_release example_ID [widget, deployment]
                   example_cluster = (None, c1)"
    by (simp add: c1_def prod_eq_iff)
  have h5: "example_restMap (GetGroup service, GetKind service) (GetVersion service)
              = Inr ([], ''v1'', ''services'')"
    by code_simp
  have "fst (fetch 4 ([], ''v1'', ''services'') ''other'' ''svc'' c1)
          = Some (annotated ''prod:helmrelease/app'')"
    and "fst (snd (fetch 4 ([], ''v1'', ''services'') ''other'' ''svc'' c1)) = None"
    unfolding c1_def by code_simp+
  then have h6: "fetch 4 ([], ''v1'', ''services'')
                   (if GetNamespace service = [] then Namespace example_release
                    else GetNamespace service)
                   (GetName service) c1
                 = (Some (annotated ''prod:helmrelease/app''), None, c2)"
    by (simp add: c2_def prod_eq_iff service_def)
  have h7: "fmlookup (GetAnnotations (annotated ''prod:helmrelease/app'')) AntecedentAnnotation
              = Some ''prod:helmrelease/app''"
    by code_simp
  have r: "requests c2
       = [GetRequest (''apps'', ''v1'', ''deployments'') ''prod'' ''web'',
          GetRequest (''apps'', ''v1'', ''deployments'') ''prod'' ''web'',
          GetRequest ([], ''v1'', ''services'') ''other'' ''svc'',
          GetRequest ([], ''v1'', ''services'') ''other'' ''svc'']"
    unfolding c2_def c1_def by code_simp
  have "annotatedWithResourceID example_lib 4 example_config example_release example_ID
          example_cluster
        = (Return (''prod:helmrelease/app'' = String example_ID, ''prod:helmrelease/app'', None),
           c2)"
    by (rule verify_returns_at_first_annotation [OF h1 h2 h3 h4 h5 h6 h7])
  then show ?thesis
    using r by (simp add: example_ID_def)
qed

subsection \<open>The fetch and its retries\<close>

lemma asked_0: "asked 0 rq c = c"
  by (simp add: asked_def)

lemma asked_asked: "asked m rq (asked n rq c) = asked (n + m) rq c"
proof -
  have "drop (m + n) (outcomes c) = drop (n + m) (outcomes c)"
    by (simp add: add.commute)
  then show ?thesis
    by (simp add: asked_def replicate_add)
qed

lemma outcomes_asked: "outcomes c = xs @ rest \<Longrightarrow> outcomes (asked (length xs) rq c) = rest"
  by (simp add: asked_def)

lemma objects_asked: "objects (asked n rq c) = objects c"
  by (simp add: asked_def)

lemma client_Get_fault:
  "outcomes c = Some e # rest \<Longrightarrow>
     client_Get r ns name c = (Inl e, asked (Suc 0) (GetRequest r ns name) c)"
  by (simp add: client_Get_def next_outcome_def asked_def)

lemma client_Get_served:
  "outcomes c = [] \<or> (\<exists>rest. outcomes c = None # rest) \<Longrightarrow>
     client_Get r ns name c =
       ((case objects c (r, ns, name) of None \<Rightarrow> Inl NotFound | Some obj \<Rightarrow> Inr obj),
        asked (Suc 0) (GetRequest r ns name) c)"
  by (auto simp: client_Get_def next_outcome_def asked_def split: option.splits)

lemma not_transient_simps:
  "\<not> IsConnectionReset None" "\<not> IsInternalError None" "\<not> IsTimeout None"
  "\<not> IsTooManyRequests None" "\<not> snd (SuggestsClientDelay None)"
  "\<not> IsConnectionReset (Some NotFound)" "\<not> IsInternalError (Some NotFound)"
  "\<not> IsTimeout (Some NotFound)" "\<not> IsTooManyRequests (Some NotFound)"
  "\<not> snd (SuggestsClientDelay (Some NotFound))"
  by (simp_all add: IsConnectionReset_def IsInternalError_def IsTimeout_def
      IsTooManyRequests_def SuggestsClientDelay_def)

lemma condition_transient:
  "outcomes c = Some e # rest \<Longrightarrow> transient e \<Longrightarrow>
     condition r ns name (res, err, c)
       = ((False, None), (None, Some e, asked (Suc 0) (GetRequest r ns name) c))"
  by (auto simp: condition_def client_Get_fault transient_def Let_def)

lemma condition_terminal:
  "outcomes c = Some e # rest \<Longrightarrow> \<not> transient e \<Longrightarrow>
     condition r ns name (res, err, c)
       = ((False, Some e), (None, Some e, asked (Suc 0) (GetRequest r ns name) c))"
  by (auto simp: condition_def client_Get_fault transient_def Let_def)

lemma condition_found:
  "outcomes c = [] \<or> (\<exists>rest. outcomes c = None # rest) \<Longrightarrow>
   objects c (r, ns, name) = Some live \<Longrightarrow>
     condition r ns name (res, err, c)
       = ((True, None), (Some live, None, asked (Suc 0) (GetRequest r ns name) c))"
  by (simp add: condition_def client_Get_served Let_def not_transient_simps)

lemma condition_missing:
  "outcomes c = [] \<or> (\<exists>rest. outcomes c = None # rest) \<Longrightarrow>
   objects c (r, ns, name) = None \<Longrightarrow>
     condition r ns name (res, err, c)
       = ((False, Some NotFound),
          (None, Some NotFound, asked (Suc 0) (GetRequest r ns name) c))"
  by (simp add: condition_def client_Get_served Let_def not_transient_simps)

text \<open>A run of transient failures costs one step each and leaves the last of them in \<open>err\<close>.\<close>

lemma backoff_transient_run:
  "outcomes c = map Some es @ rest \<Longrightarrow> \<forall>e \<in> set es. transient e \<Longrightarrow>
     ExponentialBackoff (length es + k) (condition r ns name) (res, err, c)
       = ExponentialBackoff k (condition r ns name)
           (if es = [] then res else None, if es = [] then err else Some (last es),
            asked (length es) (GetRequest r ns name) c)"
proof (induction es arbitrary: res err c)
  case Nil
  then show ?case by (simp add: asked_0)
next
  case (Cons e es)
  have o: "outcomes (asked (Suc 0) (GetRequest r ns name) c) = map Some es @ rest"
    using Cons.prems(1) by (simp add: asked_def)
  have "ExponentialBackoff (length (e # es) + k) (condition r ns name) (res, err, c)
      = ExponentialBackoff (length es + k) (condition r ns name)
          (None, Some e, asked (Suc 0) (GetRequest r ns name) c)"
    using Cons.prems by (simp add: condition_transient)
  also have "\<dots> = ExponentialBackoff k (condition r ns name)
           (if es = [] then None else None, if es = [] then Some e else Some (last es),
            asked (length es) (GetRequest r ns name) (asked (Suc 0) (GetRequest r ns name) c))"
    using Cons.IH [OF o] Cons.prems(2) by simp
  finally show ?case
    by (simp add: asked_asked)
qed

lemma fetch_run:
  assumes "outcomes c = map Some es @ rest" and "\<forall>e \<in> set es. transient e"
    and "length es < steps"
  shows "fetch steps r ns name c
       = snd (ExponentialBackoff (Suc (steps - Suc (length es))) (condition r ns name)
               (None, if es = [] then None else Some (last es),
                asked (length es) (GetRequest r ns name) c))"
proof -
  define k where "k = steps - Suc (length es)"
  have k: "steps = length es + Suc k"
    using assms(3) by (simp add: k_def)
  have "ExponentialBackoff steps (condition r ns name) (None, None, c)
      = ExponentialBackoff (Suc k) (condition r ns name)
          (if es = [] then None else None, if es = [] then None else Some (last es),
           asked (length es) (GetRequest r ns name) c)"
    using backoff_transient_run [OF assms(1,2), of "Suc k" r ns name None None]
    by (simp only: k)
  then show ?thesis
    by (simp add: fetch_def k_def)
qed

lemma fetch_found:
  assumes "outcomes c = map Some es @ rest" and "\<forall>e \<in> set es. transient e"
    and "length es < steps" and "rest = [] \<or> (\<exists>t. rest = None # t)"
    and "objects c (r, ns, name) = Some live"
  shows "fetch steps r ns name c
           = (Some live, None, asked (Suc (length es)) (GetRequest r ns name) c)"
proof -
  let ?c = "asked (length es) (GetRequest r ns name) c"
  have "outcomes ?c = rest"
    using assms(1) outcomes_asked [of c "map Some es" rest] by simp
  then have "outcomes ?c = [] \<or> (\<exists>t. outcomes ?c = None # t)"
    using assms(4) by simp
  moreover have "objects ?c (r, ns, name) = Some live"
    using assms(5) by (simp add: objects_asked)
  ultimately have "condition r ns name (None, if es = [] then None else Some (last es), ?c)
      = ((True, None), (Some live, None, asked (Suc 0) (GetRequest r ns name) ?c))"
    by (rule condition_found)
  then show ?thesis
    using fetch_run [OF assms(1,2,3), of r ns name] by (simp add: asked_asked)
qed

lemma fetch_missing:
  assumes "outcomes c = map Some es @ rest" and "\<forall>e \<in> set es. transient e"
    and "length es < steps" and "rest = [] \<or> (\<exists>t. rest = None # t)"
    and "objects c (r, ns, name) = None"
  shows "fetch steps r ns name c
           = (None, Some NotFound, asked (Suc (length es)) (GetRequest r ns name) c)"
proof -
  let ?c = "asked (length es) (GetRequest r ns name) c"
  have "outcomes ?c = rest"
    using assms(1) outcomes_asked [of c "map Some es" rest] by simp
  then have "outcomes ?c = [] \<or> (\<exists>t. outcomes ?c = None # t)"
    using assms(4) by simp
  moreover have "objects ?c (r, ns, name) = None"
    using assms(5) by (simp add: objects_asked)
  ultimately have "condition r ns name (None, if es = [] then None else Some (last es), ?c)
      = ((False, Some NotFound),
         (None, Some NotFound, asked (Suc 0) (GetRequest r ns name) ?c))"
    by (rule condition_missing)
  then show ?thesis
    using fetch_run [OF assms(1,2,3), of r ns name] by (simp add: asked_asked)
qed

lemma fetch_terminal:
  assumes "outcomes c = map Some es @ Some e # t" and "\<forall>e \<in> set es. transient e"
    and "length es < steps" and "\<not> transient e"
  shows "fetch steps r ns name c
           = (None, Some e, asked (Suc (length es)) (GetRequest r ns name) c)"
proof -
  let ?c = "asked (length es) (GetRequest r ns name) c"
  have "outcomes ?c = Some e # t"
    using assms(1) outcomes_asked [of c "map Some es" "Some e # t"] by simp
  then have "condition r ns name (None, if es = [] then None else Some (last es), ?c)
      = ((False, Some e), (None, Some e, asked (Suc 0) (GetRequest r ns name) ?c))"
    using assms(4) by (rule condition_terminal)
  then show ?thesis
    using fetch_run [OF assms(1,2,3), of r ns name] by (simp add: asked_asked)
qed

lemma fetch_exhausted:
  assumes "outcomes c = map Some es @ rest" and "\<forall>e \<in> set es. transient e"
    and "length es = steps" and "0 < steps"
  shows "fetch steps r ns name c = (None, Some (last es), asked steps (GetRequest r ns name) c)"
proof -
  have "es \<noteq> []" using assms(3,4) by auto
  then show ?thesis
    using backoff_transient_run [OF assms(1,2), of 0 r ns name None None] assms(3)
    by (simp add: fetch_def)
qed

text \<open>Whatever happens, a fetch sends the one request, at most \<open>steps\<close> times.\<close>

lemma condition_cluster:
  "snd (snd (snd (condition r ns name (res, err, c)))) = asked (Suc 0) (GetRequest r ns name) c"
  by (auto simp: condition_def client_Get_def next_outcome_def asked_def Let_def
      split: list.splits option.splits prod.splits)

lemma backoff_frame:
  "\<exists>n \<le> steps. snd (snd (snd (ExponentialBackoff steps (condition r ns name) (res, err, c))))
      = asked n (GetRequest r ns name) c"
proof (induction steps arbitrary: res err c)
  case 0
  show ?case by (simp add: asked_0)
next
  case (Suc steps)
  obtain ok e res' err' c' where cond:
    "condition r ns name (res, err, c) = ((ok, e), (res', err', c'))"
    by (metis prod.collapse)
  have c': "c' = asked (Suc 0) (GetRequest r ns name) c"
    using condition_cluster [of r ns name res err c] cond by simp
  show ?case
  proof (cases "e = None \<and> \<not> ok")
    case True
    from Suc.IH [of res' err' c'] obtain n where
      "n \<le> steps"
      "snd (snd (snd (ExponentialBackoff steps (condition r ns name) (res', err', c'))))
         = asked n (GetRequest r ns name) c'"
      by blast
    then show ?thesis
      using True cond c' by (intro exI [of _ "Suc n"]) (simp add: asked_asked)
  next
    case False
    then show ?thesis
      using cond c' by (intro exI [of _ "Suc 0"]) (auto split: option.splits)
  qed
qed

lemma fetch_frame:
  "\<exists>n \<le> steps. snd (snd (fetch steps r ns name c)) = asked n (GetRequest r ns name) c"
  using backoff_frame [of steps r ns name None None c] by (simp add: fetch_def)

text \<open>
  Claim C3. Take a descriptor whose type resolves, and a cluster whose next \<open>N\<close> answers
  are transient failures, \<open>N\<close> below the number of steps of the backoff. The fetch sends
  its request at most \<open>steps\<close> times in any case. If the answer after the failures is
  served and the object exists, no error reaches the caller: the loop goes on from the
  object, after \<open>N + 1\<close> requests. If the object does not exist, or the answer after the
  failures is an error that is not transient, that request was the last one and
  \<open>annotatedWithResourceID\<close> leaves its loop with \<open>(false, "", err)\<close>.
\<close>

theorem fetch_retries_transient_errors_only:
  assumes answers: "outcomes c = map Some es @ rest"
    and failures: "\<forall>e \<in> set es. transient e"
    and below: "length es < steps"
    and resolved: "restMap (GetGroup obj, GetKind obj) (GetVersion obj) = Inr resource"
    and rq: "rq = GetRequest resource (addressed_namespace rel obj) (GetName obj)"
    and key: "key = (resource, addressed_namespace rel obj, GetName obj)"
  shows "(\<exists>n \<le> steps.
            snd (snd (fetch steps resource (addressed_namespace rel obj) (GetName obj) c))
              = asked n rq c)
    \<and> ((rest = [] \<or> (\<exists>t. rest = None # t)) \<longrightarrow>
         (\<forall>live. objects c key = Some live \<longrightarrow>
            verify_loop restMap steps rel resourceID (obj # objs) c
              = (case fmlookup (GetAnnotations live) AntecedentAnnotation of
                   Some v \<Rightarrow>
                     (Some (Return (v = String resourceID, v, None)),
                      asked (Suc (length es)) rq c)
                 | None \<Rightarrow>
                     verify_loop restMap steps rel resourceID objs
                       (asked (Suc (length es)) rq c))))
    \<and> ((rest = [] \<or> (\<exists>t. rest = None # t)) \<longrightarrow> objects c key = None \<longrightarrow>
         verify_loop restMap steps rel resourceID (obj # objs) c
           = (Some (Return (False, [], Some NotFound)), asked (Suc (length es)) rq c))
    \<and> (\<forall>e t. rest = Some e # t \<longrightarrow> \<not> transient e \<longrightarrow>
         verify_loop restMap steps rel resourceID (obj # objs) c
           = (Some (Return (False, [], Some e)), asked (Suc (length es)) rq c))"
proof -
  let ?ns = "addressed_namespace rel obj"
  have step: "verify_loop restMap steps rel resourceID (obj # objs) c
      = (case fetch steps resource ?ns (GetName obj) c of
           (res, Some err, c') \<Rightarrow> (Some (Return (False, [], Some err)), c')
         | (None, None, c') \<Rightarrow> (Some Panic, c')
         | (Some r, None, c') \<Rightarrow>
             (case fmlookup (GetAnnotations r) AntecedentAnnotation of
                Some v \<Rightarrow> (Some (Return (v = String resourceID, v, None)), c')
              | None \<Rightarrow> verify_loop restMap steps rel resourceID objs c'))"
    using resolved
    by (simp add: addressed_namespace_def GetNamespace_SetNamespace GetName_SetNamespace)
  have bounded: "\<exists>n \<le> steps. snd (snd (fetch steps resource ?ns (GetName obj) c)) = asked n rq c"
    unfolding rq by (rule fetch_frame)
  have found: "verify_loop restMap steps rel resourceID (obj # objs) c
              = (case fmlookup (GetAnnotations live) AntecedentAnnotation of
                   Some v \<Rightarrow>
                     (Some (Return (v = String resourceID, v, None)),
                      asked (Suc (length es)) rq c)
                 | None \<Rightarrow>
                     verify_loop restMap steps rel resourceID objs
                       (asked (Suc (length es)) rq c))"
    if "rest = [] \<or> (\<exists>t. rest = None # t)" and "objects c key = Some live" for live
  proof -
    have "objects c (resource, ?ns, GetName obj) = Some live"
      using that(2) by (simp only: key)
    then have "fetch steps resource ?ns (GetName obj) c
        = (Some live, None, asked (Suc (length es)) rq c)"
      unfolding rq by (rule fetch_found [OF answers failures below that(1)])
    then show ?thesis
      unfolding step by simp
  qed
  have missing: "verify_loop restMap steps rel resourceID (obj # objs) c
           = (Some (Return (False, [], Some NotFound)), asked (Suc (length es)) rq c)"
    if "rest = [] \<or> (\<exists>t. rest = None # t)" and "objects c key = None"
  proof -
    have "objects c (resource, ?ns, GetName obj) = None"
      using that(2) by (simp only: key)
    then have "fetch steps resource ?ns (GetName obj) c
        = (None, Some NotFound, asked (Suc (length es)) rq c)"
      unfolding rq by (rule fetch_missing [OF answers failures below that(1)])
    then show ?thesis
      unfolding step by simp
  qed
  have terminal: "verify_loop restMap steps rel resourceID (obj # objs) c
           = (Some (Return (False, [], Some e)), asked (Suc (length es)) rq c)"
    if "rest = Some e # t" and "\<not> transient e" for e t
  proof -
    have "outcomes c = map Some es @ Some e # t"
      using answers that(1) by simp
    then have "fetch steps resource ?ns (GetName obj) c
        = (None, Some e, asked (Suc (length es)) rq c)"
      unfolding rq using failures below that(2) by (rule fetch_terminal)
    then show ?thesis
      unfolding step by simp
  qed
  show ?thesis
    using bounded found missing terminal by blast
qed
text \<open>
  On the examples: the Deployment is fetched at the third attempt from the flaky cluster
  and the loop runs to its end; the refusing cluster ends the call at the second request;
  the bare cluster ends it at the first, with not-found.
\<close>

theorem fetch_retries_transient_errors_only_witness:
  "verify_loop example_restMap 4 example_release example_ID [deployment] flaky_cluster
     = (None, asked 3 (GetRequest (''apps'', ''v1'', ''deployments'') ''prod'' ''web'')
                flaky_cluster)
   \<and> verify_loop example_restMap 4 example_release example_ID [deployment, service]
         refusing_cluster
     = (Some (Return (False, [], Some (Failure ''forbidden''))),
        asked 2 (GetRequest (''apps'', ''v1'', ''deployments'') ''prod'' ''web'')
          refusing_cluster)
   \<and> verify_loop example_restMap 4 example_release example_ID [deployment, service]
         bare_cluster
     = (Some (Return (False, [], Some NotFound)),
        asked 1 (GetRequest (''apps'', ''v1'', ''deployments'') ''prod'' ''web'')
          bare_cluster)"
proof -
  let ?resource = "(''apps'', ''v1'', ''deployments'')"
  let ?rq = "GetRequest ?resource ''prod'' ''web''"
  let ?key = "(?resource, ''prod'', ''web'')"
  have resolved:
    "example_restMap (GetGroup deployment, GetKind deployment) (GetVersion deployment)
       = Inr ?resource"
    by (simp add: example_restMap_def deployment_def)
  have rq: "?rq = GetRequest ?resource (addressed_namespace example_release deployment)
                    (GetName deployment)"
    by (simp add: addressed_namespace_def example_release_def deployment_def)
  have key: "?key = (?resource, addressed_namespace example_release deployment,
                     GetName deployment)"
    by (simp add: addressed_namespace_def example_release_def deployment_def)
  have t: "transient Timeout" "transient TooManyRequests" "transient InternalError"
    "\<not> transient (Failure ''forbidden'')"
    by (simp_all add: transient_def IsConnectionReset_def IsInternalError_def IsTimeout_def
        IsTooManyRequests_def SuggestsClientDelay_def)
  have no_annotation: "fmlookup (GetAnnotations plain) AntecedentAnnotation = None"
    by code_simp
  have "verify_loop example_restMap 4 example_release example_ID [deployment] flaky_cluster
     = (None, asked 3 ?rq flaky_cluster)"
  proof -
    have a: "outcomes flaky_cluster = map Some [Timeout, TooManyRequests] @ [None]"
      by (simp add: flaky_cluster_def)
    have f: "\<forall>e \<in> set [Timeout, TooManyRequests]. transient e"
      using t by simp
    have b: "length [Timeout, TooManyRequests] < (4::nat)"
      by simp
    have o: "objects flaky_cluster ?key = Some plain"
      by (simp add: flaky_cluster_def example_objects_def)
    from fetch_retries_transient_errors_only
        [where c = flaky_cluster and es = "[Timeout, TooManyRequests]" and rest = "[None]" and steps = 4
           and restMap = example_restMap and resource = "?resource"
           and rel = example_release and obj = deployment and rq = "?rq" and key = "?key"
           and resourceID = example_ID and objs = "[]",
         OF a f b resolved rq key] o no_annotation
    show ?thesis
      by (simp add: numeral_3_eq_3)
  qed
  moreover
  have "verify_loop example_restMap 4 example_release example_ID [deployment, service]
         refusing_cluster
     = (Some (Return (False, [], Some (Failure ''forbidden''))), asked 2 ?rq refusing_cluster)"
  proof -
    have a: "outcomes refusing_cluster
               = map Some [InternalError] @ [Some (Failure ''forbidden'')]"
      by (simp add: refusing_cluster_def)
    have f: "\<forall>e \<in> set [InternalError]. transient e"
      using t by simp
    have b: "length [InternalError] < (4::nat)"
      by simp
    from fetch_retries_transient_errors_only
        [where c = refusing_cluster and es = "[InternalError]" and rest = "[Some (Failure ''forbidden'')]" and steps = 4
           and restMap = example_restMap and resource = "?resource"
           and rel = example_release and obj = deployment and rq = "?rq" and key = "?key"
           and resourceID = example_ID and objs = "[service]",
         OF a f b resolved rq key] t(4)
    show ?thesis
      by (simp add: numeral_2_eq_2)
  qed
  moreover
  have "verify_loop example_restMap 4 example_release example_ID [deployment, service]
         bare_cluster
     = (Some (Return (False, [], Some NotFound)), asked 1 ?rq bare_cluster)"
  proof -
    have a: "outcomes bare_cluster = map Some [] @ []"
      by (simp add: bare_cluster_def)
    have f: "\<forall>e \<in> set []. transient e"
      by simp
    have b: "length ([] :: error list) < (4::nat)"
      by simp
    have o: "objects bare_cluster ?key = None"
      by (simp add: bare_cluster_def)
    from fetch_retries_transient_errors_only
        [where c = bare_cluster and es = "[]" and rest = "[]" and steps = 4
           and restMap = example_restMap and resource = "?resource"
           and rel = example_release and obj = deployment and rq = "?rq" and key = "?key"
           and resourceID = example_ID and objs = "[service]",
         OF a f b resolved rq key] o
    show ?thesis
      by simp
  qed
  ultimately show ?thesis
    by simp
qed

subsection \<open>The unclaimed release\<close>

lemma failures_ahead_split:
  "os = map Some (map the (failures_ahead os)) @ dropWhile (\<lambda>e. e \<noteq> None) os"
proof -
  have "map Some (map the (takeWhile (\<lambda>e. e \<noteq> None) os)) = takeWhile (\<lambda>e. e \<noteq> None) os"
    by (induction os) auto
  then show ?thesis
    by (simp add: failures_ahead_def)
qed

lemma after_failures:
  "dropWhile (\<lambda>e. e \<noteq> None) os = [] \<or> (\<exists>t. dropWhile (\<lambda>e. e \<noteq> None) os = None # t)"
  by (induction os) auto

lemma tolerable_failures:
  "tolerable steps os \<Longrightarrow> \<forall>e \<in> set (map the (failures_ahead os)). transient e"
  by (induction os) (auto simp: failures_ahead_def)

lemma tolerable_below: "tolerable steps os \<Longrightarrow> length (failures_ahead os) < steps"
  by (cases os) (simp_all add: failures_ahead_def)

lemma tolerable_drop: "tolerable steps os \<Longrightarrow> tolerable steps (drop n os)"
proof (induction n arbitrary: os)
  case 0
  then show ?case by simp
next
  case (Suc n)
  then show ?case
    by (cases os) (auto dest: tolerable_below)
qed

lemma verify_loop_resolved:
  "restMap (GetGroup obj, GetKind obj) (GetVersion obj) = Inr resource \<Longrightarrow>
   verify_loop restMap steps rel resourceID (obj # objs) c
     = (case fetch steps resource (addressed_namespace rel obj) (GetName obj) c of
          (res, Some err, c') \<Rightarrow> (Some (Return (False, [], Some err)), c')
        | (None, None, c') \<Rightarrow> (Some Panic, c')
        | (Some r, None, c') \<Rightarrow>
            (case fmlookup (GetAnnotations r) AntecedentAnnotation of
               Some v \<Rightarrow> (Some (Return (v = String resourceID, v, None)), c')
             | None \<Rightarrow> verify_loop restMap steps rel resourceID objs c'))"
  by (simp add: addressed_namespace_def GetNamespace_SetNamespace GetName_SetNamespace)

lemma verify_loop_unclaimed:
  assumes "tolerable steps (outcomes c)"
    and "\<forall>obj \<in> set objs. \<forall>resource.
           restMap (GetGroup obj, GetKind obj) (GetVersion obj) = Inr resource \<longrightarrow>
           (\<exists>live. objects c (resource, addressed_namespace rel obj, GetName obj) = Some live
                  \<and> fmlookup (GetAnnotations live) AntecedentAnnotation = None)"
  shows "fst (verify_loop restMap steps rel resourceID objs c) = None
         \<and> objects (snd (verify_loop restMap steps rel resourceID objs c)) = objects c"
  using assms
proof (induction objs arbitrary: c)
  case Nil
  show ?case by simp
next
  case (Cons obj objs)
  show ?case
  proof (cases "restMap (GetGroup obj, GetKind obj) (GetVersion obj)")
    case (Inl err)
    then show ?thesis
      using Cons.IH [of c] Cons.prems by simp
  next
    case (Inr resource)
    let ?ns = "addressed_namespace rel obj"
    let ?es = "map the (failures_ahead (outcomes c))"
    let ?c = "asked (Suc (length ?es)) (GetRequest resource ?ns (GetName obj)) c"
    obtain live where live: "objects c (resource, ?ns, GetName obj) = Some live"
      and none: "fmlookup (GetAnnotations live) AntecedentAnnotation = None"
      using Cons.prems(2) Inr by (metis list.set_intros(1))
    have below: "length ?es < steps"
      using tolerable_below [OF Cons.prems(1)] by simp
    have "fetch steps resource ?ns (GetName obj) c = (Some live, None, ?c)"
      using failures_ahead_split tolerable_failures [OF Cons.prems(1)] below after_failures live
      by (rule fetch_found)
    then have step: "verify_loop restMap steps rel resourceID (obj # objs) c
        = verify_loop restMap steps rel resourceID objs ?c"
      using none Inr by (simp add: verify_loop_resolved del: verify_loop.simps)
    have "tolerable steps (outcomes ?c)"
      using tolerable_drop [OF Cons.prems(1)] by (simp add: asked_def)
    moreover have "objects ?c = objects c"
      by (simp add: objects_asked)
    ultimately show ?thesis
      using Cons.IH [of ?c] Cons.prems(2) step by simp
  qed
qed

text \<open>
  Claim C2, as amended. When the client and the discovery table are built, the cluster
  fails only transiently and never as often in a row as the backoff has steps, and every
  descriptor of the manifest either does not resolve or names an object that exists and
  carries no antecedent annotation, \<open>annotatedWithResourceID\<close> returns
  \<open>(true, "", nil)\<close>. A manifest without descriptors is such a manifest.
\<close>

theorem verify_unclaimed:
  assumes client: "NewForConfig kubeConfig = None"
    and mapper: "buildDiscoveryRestMapper kubeConfig = Inr restMap"
    and answers: "tolerable steps (outcomes c)"
    and unannotated:
      "\<forall>obj \<in> set (fst (releaseManifestToUnstructured lib (Manifest rel) NopLogger)).
         \<forall>resource.
           restMap (GetGroup obj, GetKind obj) (GetVersion obj) = Inr resource \<longrightarrow>
           (\<exists>live. objects c (resource, addressed_namespace rel obj, GetName obj) = Some live
                  \<and> fmlookup (GetAnnotations live) AntecedentAnnotation = None)"
  shows "fst (annotatedWithResourceID lib steps kubeConfig rel resourceID c)
           = Return (True, [], None)"
proof -
  let ?objs = "fst (releaseManifestToUnstructured lib (Manifest rel) NopLogger)"
  have "fst (verify_loop restMap steps rel resourceID ?objs c) = None"
    using verify_loop_unclaimed [OF answers unannotated] by simp
  then have "\<exists>c'. verify_loop restMap steps rel resourceID ?objs c = (None, c')"
    by (metis prod.collapse)
  then show ?thesis
    using client mapper
    by (auto simp: annotatedWithResourceID_def)
qed

text \<open>
  The claim as it stands fails where a described object does not exist: nothing in the bare
  cluster carries the annotation, and the call returns the not-found error.
\<close>

theorem verify_unclaimed_counterexample:
  "fst (annotatedWithResourceID example_lib 4 example_config example_release example_ID
          bare_cluster) = Return (False, [], Some NotFound)"
  by code_simp
text \<open>
  On the examples: three objects without the annotation behind a cluster that fails three
  times in all, and the empty manifest.
\<close>

theorem verify_unclaimed_witness:
  "fst (annotatedWithResourceID example_lib 4 example_config example_release example_ID
          unclaimed_cluster) = Return (True, [], None)
   \<and> fst (annotatedWithResourceID example_lib 4 example_config empty_release example_ID
          example_cluster) = Return (True, [], None)"
proof -
  have h1: "NewForConfig example_config = None"
    by (simp add: example_config_def)
  have h2: "buildDiscoveryRestMapper example_config = Inr example_restMap"
    by (simp add: buildDiscoveryRestMapper_def example_config_def)
  have t: "transient Timeout" "transient InternalError" "transient (RetryAfter 2)"
    by (simp_all add: transient_def IsConnectionReset_def IsInternalError_def IsTimeout_def
        IsTooManyRequests_def SuggestsClientDelay_def)
  have h3: "tolerable 4 (outcomes unclaimed_cluster)"
    using t by (simp add: unclaimed_cluster_def failures_ahead_def)
  have h3': "tolerable 4 (outcomes example_cluster)"
    using t by (simp add: example_cluster_def failures_ahead_def)
  have d: "fst (releaseManifestToUnstructured example_lib (Manifest example_release) NopLogger)
             = [widget, deployment, service, configmap]"
    by code_simp
  have d': "fst (releaseManifestToUnstructured example_lib (Manifest empty_release) NopLogger)
             = []"
    by code_simp
  have no_annotation: "fmlookup (GetAnnotations plain) AntecedentAnnotation = None"
    by code_simp
  have h4: "\<forall>obj \<in> set (fst (releaseManifestToUnstructured example_lib
                (Manifest example_release) NopLogger)).
         \<forall>resource.
           example_restMap (GetGroup obj, GetKind obj) (GetVersion obj) = Inr resource \<longrightarrow>
           (\<exists>live. objects unclaimed_cluster
                     (resource, addressed_namespace example_release obj, GetName obj)
                       = Some live
                  \<and> fmlookup (GetAnnotations live) AntecedentAnnotation = None)"
    unfolding d using no_annotation
    by (auto simp: widget_def deployment_def service_def configmap_def example_restMap_def
        unclaimed_cluster_def unclaimed_objects_def addressed_namespace_def
        example_release_def)
  have h4': "\<forall>obj \<in> set (fst (releaseManifestToUnstructured example_lib
                (Manifest empty_release) NopLogger)).
         \<forall>resource.
           example_restMap (GetGroup obj, GetKind obj) (GetVersion obj) = Inr resource \<longrightarrow>
           (\<exists>live. objects example_cluster
                     (resource, addressed_namespace empty_release obj, GetName obj)
                       = Some live
                  \<and> fmlookup (GetAnnotations live) AntecedentAnnotation = None)"
    unfolding d' by simp
  show ?thesis
    using verify_unclaimed [OF h1 h2 h3 h4, of example_ID]
      verify_unclaimed [OF h1 h2 h3' h4', of example_ID]
    by simp
qed

subsection \<open>Decomposition\<close>

lemma decompose_loop_objs:
  "fst (decompose_loop lib manifests objs logger) = objs @ concat (map (expand lib) manifests)"
  by (induction manifests arbitrary: objs logger)
    (simp_all add: expand_def split: sum.splits)

lemma decompose_loop_logger:
  "snd (decompose_loop lib manifests objs logger)
     = foldl (\<lambda>lg e. Log e lg) logger (concat (map (logged lib) manifests))"
  by (induction manifests arbitrary: objs logger)
    (simp_all add: logged_def split: sum.splits)

text \<open>
  Claim C4, as amended. \<open>releaseManifestToUnstructured\<close> produces the descriptors of the
  documents in the order in which its range visits them: for each document in turn
  nothing when it does not parse, the items when it is a list (nothing when the list
  cannot be read), the document itself otherwise. No descriptor is made of a document
  that does not parse, and nothing is logged for it; a list is never emitted in place of
  its items. The order is manifest order in the runs in which the range visits the
  documents in manifest order.
\<close>

theorem releaseManifestToUnstructured_order:
  "releaseManifestToUnstructured lib manifest logger
     = (concat (map (expand lib) (range_map lib (SplitManifests lib manifest))),
        foldl (\<lambda>lg e. Log e lg) logger
          (concat (map (logged lib) (range_map lib (SplitManifests lib manifest)))))"
  by (simp add: releaseManifestToUnstructured_def prod_eq_iff decompose_loop_objs
      decompose_loop_logger)

text \<open>
  \<open>releaseutil.SplitManifests\<close> returns a Go map, and Go does not fix the order in which a
  range visits a map: in a run that visits the four documents of the example last to
  first, the items of the list come before the Deployment.
\<close>

theorem releaseManifestToUnstructured_order_counterexample:
  "fst (releaseManifestToUnstructured reversing_lib ''all'' NopLogger)
     = [service, configmap, deployment, widget]
   \<and> in_manifest_order reversing_lib ''all'' = [widget, deployment, service, configmap]"
  by code_simp

subsection \<open>Claiming goes through every descriptor\<close>

lemma client_Patch_requests:
  "requests (snd (client_Patch r ns name pt data c))
     = requests c @ [PatchRequest r ns name pt data]"
  by (simp add: client_Patch_def next_outcome_def Let_def
      split: list.splits option.splits)

lemma annotate_loop_resolved:
  "restMap (GetGroup obj, GetKind obj) (GetVersion obj) = Inr resource \<Longrightarrow>
   annotate_loop restMap rel annotation (obj # objs) logger c
     = (case client_Patch resource (addressed_namespace rel obj) (GetName obj) MergePatchType
               annotation c of
          (Inl err, c') \<Rightarrow>
            annotate_loop restMap rel annotation objs
              (Log (LogPatchFailed (GetKind obj) (GetName obj) err) logger) c'
        | (Inr _, c') \<Rightarrow> annotate_loop restMap rel annotation objs logger c')"
  by (simp add: addressed_namespace_def Let_def GetNamespace_SetNamespace
      GetName_SetNamespace GetKind_SetNamespace split: prod.splits sum.splits)

lemma annotate_loop_requests:
  "requests (snd (annotate_loop restMap rel annotation objs logger c))
     = requests c @ patch_requests restMap rel annotation objs"
proof (induction objs arbitrary: logger c)
  case Nil
  show ?case by (simp add: patch_requests_def)
next
  case (Cons obj objs)
  show ?case
  proof (cases "restMap (GetGroup obj, GetKind obj) (GetVersion obj)")
    case (Inl err)
    then show ?thesis
      using Cons.IH by (simp add: patch_requests_def)
  next
    case (Inr resource)
    obtain r c' where p:
      "client_Patch resource (addressed_namespace rel obj) (GetName obj) MergePatchType
         annotation c = (r, c')"
      by (metis prod.collapse)
    have "requests c' = requests c @ [PatchRequest resource (addressed_namespace rel obj)
             (GetName obj) MergePatchType annotation]"
      using client_Patch_requests [of resource "addressed_namespace rel obj" "GetName obj"
          MergePatchType annotation c] p by simp
    then show ?thesis
      using Inr p Cons.IH [of _ c']
      by (cases r) (simp_all add: annotate_loop_resolved patch_requests_def
          del: annotate_loop.simps)
  qed
qed

lemma foldl_Log_Recorder:
  "foldl (\<lambda>lg e. Log e lg) (Recorder es) new = Recorder (es @ new)"
  by (induction new arbitrary: es) simp_all

lemma annotate_loop_Recorder:
  "\<exists>new. fst (annotate_loop restMap rel annotation objs (Recorder es) c) = Recorder (es @ new)"
proof (induction objs arbitrary: es c)
  case Nil
  show ?case by simp
next
  case (Cons obj objs)
  show ?case
  proof (cases "restMap (GetGroup obj, GetKind obj) (GetVersion obj)")
    case (Inl err)
    from Cons.IH [of "es @ [LogMappingFailed (GetGroup obj, GetVersion obj, GetKind obj) err]" c]
    show ?thesis using Inl by auto
  next
    case (Inr resource)
    obtain r c' where p:
      "client_Patch resource (addressed_namespace rel obj) (GetName obj) MergePatchType
         annotation c = (r, c')"
      by (metis prod.collapse)
    show ?thesis
    proof (cases r)
      case (Inl err)
      from Cons.IH [of "es @ [LogPatchFailed (GetKind obj) (GetName obj) err]" c']
      show ?thesis
        using Inr Inl p by (auto simp: annotate_loop_resolved simp del: annotate_loop.simps)
    next
      case (Inr live)
      from Cons.IH [of es c'] show ?thesis
        using \<open>restMap (GetGroup obj, GetKind obj) (GetVersion obj) = Inr resource\<close> Inr p
        by (auto simp: annotate_loop_resolved simp del: annotate_loop.simps)
    qed
  qed
qed

lemma annotate_loop_logs_misses:
  "obj \<in> set objs \<Longrightarrow> restMap (GetGroup obj, GetKind obj) (GetVersion obj) = Inl err \<Longrightarrow>
   LogMappingFailed (GetGroup obj, GetVersion obj, GetKind obj) err
     \<in> set (entries (fst (annotate_loop restMap rel annotation objs (Recorder es) c)))"
proof (induction objs arbitrary: es c)
  case Nil
  then show ?case by simp
next
  case (Cons o' objs)
  let ?miss = "LogMappingFailed (GetGroup obj, GetVersion obj, GetKind obj) err"
  show ?case
  proof (cases "restMap (GetGroup o', GetKind o') (GetVersion o')")
    case (Inl err')
    show ?thesis
    proof (cases "o' = obj")
      case True
      then have "err' = err" using Inl Cons.prems(2) by simp
      obtain new where
        "fst (annotate_loop restMap rel annotation objs (Recorder (es @ [?miss])) c)
           = Recorder ((es @ [?miss]) @ new)"
        using annotate_loop_Recorder by blast
      then show ?thesis
        using Inl True \<open>err' = err\<close> by simp
    next
      case False
      then have "obj \<in> set objs" using Cons.prems(1) by simp
      from Cons.IH [OF this Cons.prems(2)] show ?thesis
        using Inl by simp
    qed
  next
    case (Inr resource)
    then have "o' \<noteq> obj" using Cons.prems(2) by auto
    then have mem: "obj \<in> set objs" using Cons.prems(1) by simp
    obtain r c' where p:
      "client_Patch resource (addressed_namespace rel o') (GetName o') MergePatchType
         annotation c = (r, c')"
      by (metis prod.collapse)
    show ?thesis
      using Cons.IH [OF mem Cons.prems(2)] Inr p
      by (cases r) (simp_all add: annotate_loop_resolved del: annotate_loop.simps)
  qed
qed

lemma annotate_loop_append:
  "annotate_loop restMap rel annotation (xs @ ys) logger c
     = (case annotate_loop restMap rel annotation xs logger c of
          (logger1, c1) \<Rightarrow> annotate_loop restMap rel annotation ys logger1 c1)"
  by (induction xs arbitrary: logger c)
    (simp_all add: Let_def split: sum.splits prod.splits)

lemma annotate_loop_cluster:
  "snd (annotate_loop restMap rel annotation objs logger c)
     = snd (annotate_loop restMap rel annotation objs logger' c)"
  by (induction objs arbitrary: logger logger' c)
    (simp_all add: Let_def split: sum.splits prod.splits)

lemma annotate_loop_logs_patch_errors:
  assumes resolved: "restMap (GetGroup obj, GetKind obj) (GetVersion obj) = Inr resource"
    and failed: "fst (client_Patch resource (addressed_namespace rel obj) (GetName obj)
                   MergePatchType annotation
                   (snd (annotate_loop restMap rel annotation before logger0 c))) = Inl err"
  shows "LogPatchFailed (GetKind obj) (GetName obj) err
     \<in> set (entries (fst (annotate_loop restMap rel annotation (before @ obj # after)
                             (Recorder es) c)))"
proof -
  obtain new1 where l1:
    "fst (annotate_loop restMap rel annotation before (Recorder es) c) = Recorder (es @ new1)"
    using annotate_loop_Recorder by blast
  define c1 where "c1 = snd (annotate_loop restMap rel annotation before (Recorder es) c)"
  have c1: "c1 = snd (annotate_loop restMap rel annotation before logger0 c)"
    unfolding c1_def by (rule annotate_loop_cluster)
  have split: "annotate_loop restMap rel annotation (before @ obj # after) (Recorder es) c
      = annotate_loop restMap rel annotation (obj # after) (Recorder (es @ new1)) c1"
  proof -
    have "annotate_loop restMap rel annotation before (Recorder es) c
        = (Recorder (es @ new1), c1)"
      using l1 by (simp add: c1_def prod_eq_iff)
    then show ?thesis
      by (simp only: annotate_loop_append prod.case)
  qed
  obtain r c' where p:
    "client_Patch resource (addressed_namespace rel obj) (GetName obj) MergePatchType
       annotation c1 = (r, c')"
    by (metis prod.collapse)
  then have r: "r = Inl err"
    using failed c1 by simp
  let ?entry = "LogPatchFailed (GetKind obj) (GetName obj) err"
  have "annotate_loop restMap rel annotation (obj # after) (Recorder (es @ new1)) c1
      = annotate_loop restMap rel annotation after (Recorder ((es @ new1) @ [?entry])) c'"
    using resolved p r by (simp add: annotate_loop_resolved del: annotate_loop.simps)
  moreover obtain new2 where
    "fst (annotate_loop restMap rel annotation after (Recorder ((es @ new1) @ [?entry])) c')
       = Recorder (((es @ new1) @ [?entry]) @ new2)"
    using annotate_loop_Recorder by blast
  ultimately show ?thesis
    using split by simp
qed

lemma annotateWithResourceID_loop:
  assumes "NewForConfig kubeConfig = None"
    and "buildDiscoveryRestMapper kubeConfig = Inr restMap"
  shows "annotateWithResourceID lib logger kubeConfig rel resourceID c
     = (None,
        annotate_loop restMap rel (annotation_body resourceID)
          (fst (releaseManifestToUnstructured lib (Manifest rel) logger))
          (snd (releaseManifestToUnstructured lib (Manifest rel) logger)) c)"
  using assms
  by (simp add: annotateWithResourceID_def Let_def split: prod.splits)

text \<open>
  Claim C5. \<open>annotateWithResourceID\<close> returns an error exactly when
  \<open>dynamic.NewForConfig\<close> or \<open>buildDiscoveryRestMapper\<close> fails, and then that error.
  Once both are built it returns nil whatever the resources do; it sends its patch for
  every descriptor whose type resolves, in order, whether or not earlier patches failed.
  Every failure of a resource is in the log: each descriptor whose type does not resolve,
  with the error of the resolution, and each descriptor whose patch, sent to the cluster
  as the patches before it left it, comes back with an error, with its kind, its name and
  that error.
\<close>

theorem claim_absorbs_resource_failures:
  "fst (annotateWithResourceID lib logger kubeConfig rel resourceID c)
     = (case NewForConfig kubeConfig of
          Some err \<Rightarrow> Some err
        | None \<Rightarrow>
            (case buildDiscoveryRestMapper kubeConfig of
               Inl err \<Rightarrow> Some err
             | Inr restMap \<Rightarrow> None))
   \<and> (\<forall>restMap.
         NewForConfig kubeConfig = None \<longrightarrow>
         buildDiscoveryRestMapper kubeConfig = Inr restMap \<longrightarrow>
         requests (snd (snd (annotateWithResourceID lib logger kubeConfig rel resourceID c)))
           = requests c
             @ patch_requests restMap rel (annotation_body resourceID)
                 (fst (releaseManifestToUnstructured lib (Manifest rel) logger)))
   \<and> (\<forall>restMap es obj err.
         NewForConfig kubeConfig = None \<longrightarrow>
         buildDiscoveryRestMapper kubeConfig = Inr restMap \<longrightarrow>
         logger = Recorder es \<longrightarrow>
         obj \<in> set (fst (releaseManifestToUnstructured lib (Manifest rel) logger)) \<longrightarrow>
         restMap (GetGroup obj, GetKind obj) (GetVersion obj) = Inl err \<longrightarrow>
         LogMappingFailed (GetGroup obj, GetVersion obj, GetKind obj) err
           \<in> set (entries (fst (snd
                 (annotateWithResourceID lib logger kubeConfig rel resourceID c)))))
   \<and> (\<forall>restMap es before obj after resource err.
         NewForConfig kubeConfig = None \<longrightarrow>
         buildDiscoveryRestMapper kubeConfig = Inr restMap \<longrightarrow>
         logger = Recorder es \<longrightarrow>
         fst (releaseManifestToUnstructured lib (Manifest rel) logger)
           = before @ obj # after \<longrightarrow>
         restMap (GetGroup obj, GetKind obj) (GetVersion obj) = Inr resource \<longrightarrow>
         fst (client_Patch resource (addressed_namespace rel obj) (GetName obj)
                MergePatchType (annotation_body resourceID)
                (snd (annotate_loop restMap rel (annotation_body resourceID) before
                        NopLogger c))) = Inl err \<longrightarrow>
         LogPatchFailed (GetKind obj) (GetName obj) err
           \<in> set (entries (fst (snd
                 (annotateWithResourceID lib logger kubeConfig rel resourceID c)))))"
proof (intro conjI allI impI)
  show "fst (annotateWithResourceID lib logger kubeConfig rel resourceID c)
     = (case NewForConfig kubeConfig of
          Some err \<Rightarrow> Some err
        | None \<Rightarrow>
            (case buildDiscoveryRestMapper kubeConfig of
               Inl err \<Rightarrow> Some err
             | Inr restMap \<Rightarrow> None))"
    by (simp add: annotateWithResourceID_def Let_def split: option.splits sum.splits prod.splits)
next
  fix restMap
  assume "NewForConfig kubeConfig = None" "buildDiscoveryRestMapper kubeConfig = Inr restMap"
  then show "requests (snd (snd (annotateWithResourceID lib logger kubeConfig rel resourceID c)))
           = requests c
             @ patch_requests restMap rel (annotation_body resourceID)
                 (fst (releaseManifestToUnstructured lib (Manifest rel) logger))"
    by (simp add: annotateWithResourceID_loop annotate_loop_requests)
next
  fix restMap es obj err
  assume built: "NewForConfig kubeConfig = None"
    "buildDiscoveryRestMapper kubeConfig = Inr restMap"
    and logger: "logger = Recorder es"
    and obj: "obj \<in> set (fst (releaseManifestToUnstructured lib (Manifest rel) logger))"
    and miss: "restMap (GetGroup obj, GetKind obj) (GetVersion obj) = Inl err"
  obtain es1 where "snd (releaseManifestToUnstructured lib (Manifest rel) logger) = Recorder es1"
    using logger
    by (simp add: releaseManifestToUnstructured_def decompose_loop_logger foldl_Log_Recorder)
  then show "LogMappingFailed (GetGroup obj, GetVersion obj, GetKind obj) err
           \<in> set (entries (fst (snd
                 (annotateWithResourceID lib logger kubeConfig rel resourceID c))))"
    using annotate_loop_logs_misses [where restMap = restMap and obj = obj, OF obj miss] built
    by (simp add: annotateWithResourceID_loop)
next
  fix restMap es before obj after resource err
  assume built: "NewForConfig kubeConfig = None"
    "buildDiscoveryRestMapper kubeConfig = Inr restMap"
    and logger: "logger = Recorder es"
    and objs: "fst (releaseManifestToUnstructured lib (Manifest rel) logger)
                 = before @ obj # after"
    and resolved: "restMap (GetGroup obj, GetKind obj) (GetVersion obj) = Inr resource"
    and failed: "fst (client_Patch resource (addressed_namespace rel obj) (GetName obj)
                   MergePatchType (annotation_body resourceID)
                   (snd (annotate_loop restMap rel (annotation_body resourceID) before
                           NopLogger c))) = Inl err"
  obtain es1 where "snd (releaseManifestToUnstructured lib (Manifest rel) logger) = Recorder es1"
    using logger
    by (simp add: releaseManifestToUnstructured_def decompose_loop_logger foldl_Log_Recorder)
  then show "LogPatchFailed (GetKind obj) (GetName obj) err
           \<in> set (entries (fst (snd
                 (annotateWithResourceID lib logger kubeConfig rel resourceID c))))"
    using annotate_loop_logs_patch_errors
        [where restMap = restMap and obj = obj and es = es1 and after = after,
         OF resolved failed] built objs
    by (simp add: annotateWithResourceID_loop)
qed

text \<open>
  On the example: the Widget does not resolve, the patch of the Deployment times out and
  that of the ConfigMap meets an internal error; all three patches are sent, all three
  failures are in the log, and the call returns nil.
\<close>

theorem claim_absorbs_resource_failures_witness:
  "fst (annotateWithResourceID example_lib (Recorder []) example_config example_release
          example_ID example_cluster) = None
   \<and> requests (snd (snd (annotateWithResourceID example_lib (Recorder []) example_config
          example_release example_ID example_cluster)))
       = [PatchRequest (''apps'', ''v1'', ''deployments'') ''prod'' ''web'' MergePatchType
            (annotation_body example_ID),
          PatchRequest ([], ''v1'', ''services'') ''other'' ''svc'' MergePatchType
            (annotation_body example_ID),
          PatchRequest ([], ''v1'', ''configmaps'') ''prod'' ''cm'' MergePatchType
            (annotation_body example_ID)]
   \<and> LogMappingFailed (''example.org'', ''v1'', ''Widget'') (Failure ''no match'')
       \<in> set (entries (fst (snd (annotateWithResourceID example_lib (Recorder [])
            example_config example_release example_ID example_cluster))))
   \<and> LogPatchFailed ''Deployment'' ''web'' Timeout
       \<in> set (entries (fst (snd (annotateWithResourceID example_lib (Recorder [])
            example_config example_release example_ID example_cluster))))
   \<and> LogPatchFailed ''ConfigMap'' ''cm'' InternalError
       \<in> set (entries (fst (snd (annotateWithResourceID example_lib (Recorder [])
            example_config example_release example_ID example_cluster))))
   \<and> entries (fst (snd (annotateWithResourceID example_lib (Recorder []) example_config
          example_release example_ID example_cluster)))
       = [LogMappingFailed (''example.org'', ''v1'', ''Widget'') (Failure ''no match''),
          LogPatchFailed ''Deployment'' ''web'' Timeout,
          LogPatchFailed ''ConfigMap'' ''cm'' InternalError]"
proof -
  let ?run = "annotateWithResourceID example_lib (Recorder []) example_config example_release
                example_ID example_cluster"
  have h1: "NewForConfig example_config = None"
    by (simp add: example_config_def)
  have h2: "buildDiscoveryRestMapper example_config = Inr example_restMap"
    by (simp add: buildDiscoveryRestMapper_def example_config_def)
  have d: "fst (releaseManifestToUnstructured example_lib (Manifest example_release)
                  (Recorder [])) = [widget, deployment, service, configmap]"
    by code_simp
  have widget: "widget \<in> set (fst (releaseManifestToUnstructured example_lib
                  (Manifest example_release) (Recorder [])))"
    unfolding d by simp
  have miss: "example_restMap (GetGroup widget, GetKind widget) (GetVersion widget)
                = Inl (Failure ''no match'')"
    by (simp add: example_restMap_def widget_def)
  note c5 = claim_absorbs_resource_failures [of example_lib "Recorder []" example_config
      example_release example_ID example_cluster]
  have "fst ?run = None"
    using c5 h1 h2 by simp
  moreover have "requests (snd (snd ?run))
       = requests example_cluster
         @ patch_requests example_restMap example_release (annotation_body example_ID)
             [widget, deployment, service, configmap]"
    using c5 h1 h2 d by simp
  then have "requests (snd (snd ?run))
       = [PatchRequest (''apps'', ''v1'', ''deployments'') ''prod'' ''web'' MergePatchType
            (annotation_body example_ID),
          PatchRequest ([], ''v1'', ''services'') ''other'' ''svc'' MergePatchType
            (annotation_body example_ID),
          PatchRequest ([], ''v1'', ''configmaps'') ''prod'' ''cm'' MergePatchType
            (annotation_body example_ID)]"
    by (simp add: patch_requests_def example_restMap_def example_cluster_def
        addressed_namespace_def example_release_def widget_def deployment_def service_def
        configmap_def)
  moreover have "LogMappingFailed (GetGroup widget, GetVersion widget, GetKind widget)
       (Failure ''no match'') \<in> set (entries (fst (snd ?run)))"
    using c5 h1 h2 widget miss by blast
  then have "LogMappingFailed (''example.org'', ''v1'', ''Widget'') (Failure ''no match'')
       \<in> set (entries (fst (snd ?run)))"
    by (simp add: widget_def)
  moreover have "LogPatchFailed ''Deployment'' ''web'' Timeout
       \<in> set (entries (fst (snd ?run)))"
  proof -
    have objs: "fst (releaseManifestToUnstructured example_lib (Manifest example_release)
                  (Recorder [])) = [widget] @ deployment # [service, configmap]"
      unfolding d by simp
    have resolved: "example_restMap (GetGroup deployment, GetKind deployment)
                      (GetVersion deployment) = Inr (''apps'', ''v1'', ''deployments'')"
      by (simp add: example_restMap_def deployment_def)
    have failed: "fst (client_Patch (''apps'', ''v1'', ''deployments'')
                   (addressed_namespace example_release deployment) (GetName deployment)
                   MergePatchType (annotation_body example_ID)
                   (snd (annotate_loop example_restMap example_release
                           (annotation_body example_ID) [widget] NopLogger example_cluster)))
                 = Inl Timeout"
      by code_simp
    have "LogPatchFailed (GetKind deployment) (GetName deployment) Timeout
       \<in> set (entries (fst (snd ?run)))"
      using c5 h1 h2 objs resolved failed by blast
    then show ?thesis
      by (simp add: deployment_def)
  qed
  moreover have "LogPatchFailed ''ConfigMap'' ''cm'' InternalError
       \<in> set (entries (fst (snd ?run)))"
  proof -
    have objs: "fst (releaseManifestToUnstructured example_lib (Manifest example_release)
                  (Recorder [])) = [widget, deployment, service] @ configmap # []"
      unfolding d by simp
    have resolved: "example_restMap (GetGroup configmap, GetKind configmap)
                      (GetVersion configmap) = Inr ([], ''v1'', ''configmaps'')"
      by (simp add: example_restMap_def configmap_def)
    have failed: "fst (client_Patch ([], ''v1'', ''configmaps'')
                   (addressed_namespace example_release configmap) (GetName configmap)
                   MergePatchType (annotation_body example_ID)
                   (snd (annotate_loop example_restMap example_release
                           (annotation_body example_ID) [widget, deployment, service]
                           NopLogger example_cluster)))
                 = Inl InternalError"
      by code_simp
    have "LogPatchFailed (GetKind configmap) (GetName configmap) InternalError
       \<in> set (entries (fst (snd ?run)))"
      using c5 h1 h2 objs resolved failed by blast
    then show ?thesis
      by (simp add: configmap_def)
  qed
  moreover have "entries (fst (snd ?run))
       = [LogMappingFailed (''example.org'', ''v1'', ''Widget'') (Failure ''no match''),
          LogPatchFailed ''Deployment'' ''web'' Timeout,
          LogPatchFailed ''ConfigMap'' ''cm'' InternalError]"
    by code_simp
  ultimately show ?thesis
    by blast
qed

subsection \<open>What verification sends, and what it leaves\<close>

lemma verify_loop_frame:
  "\<exists>new. requests (snd (verify_loop restMap steps rel resourceID objs c)) = requests c @ new
     \<and> objects (snd (verify_loop restMap steps rel resourceID objs c)) = objects c
     \<and> (\<forall>rq \<in> set new. \<exists>obj \<in> set objs. \<exists>resource.
           restMap (GetGroup obj, GetKind obj) (GetVersion obj) = Inr resource
           \<and> rq = GetRequest resource (addressed_namespace rel obj) (GetName obj))"
proof (induction objs arbitrary: c)
  case Nil
  show ?case by simp
next
  case (Cons obj objs)
  show ?case
  proof (cases "restMap (GetGroup obj, GetKind obj) (GetVersion obj)")
    case (Inl err)
    from Cons.IH [of c] show ?thesis
      using Inl by auto
  next
    case (Inr resource)
    let ?rq = "GetRequest resource (addressed_namespace rel obj) (GetName obj)"
    obtain res err c1 where f:
      "fetch steps resource (addressed_namespace rel obj) (GetName obj) c = (res, err, c1)"
      by (metis prod.collapse)
    obtain n where "c1 = asked n ?rq c"
      using fetch_frame [of steps resource "addressed_namespace rel obj" "GetName obj" c] f
      by auto
    then have c1: "requests c1 = requests c @ replicate n ?rq" "objects c1 = objects c"
      by (simp_all add: asked_def)
    let ?sent = "\<lambda>objs rq. \<exists>obj \<in> set objs. \<exists>resource.
           restMap (GetGroup obj, GetKind obj) (GetVersion obj) = Inr resource
           \<and> rq = GetRequest resource (addressed_namespace rel obj) (GetName obj)"
    have "?sent (obj # objs) ?rq"
      using Inr by (metis list.set_intros(1))
    then have head: "\<forall>rq \<in> set (replicate n ?rq). ?sent (obj # objs) rq"
      by (metis in_set_replicate)
    have stop: ?thesis if "snd (verify_loop restMap steps rel resourceID (obj # objs) c) = c1"
      using that c1 head by (intro exI [of _ "replicate n ?rq"]) (simp only: simp_thms)
    from Cons.IH [of c1] obtain new where new:
      "requests (snd (verify_loop restMap steps rel resourceID objs c1)) = requests c1 @ new"
      "objects (snd (verify_loop restMap steps rel resourceID objs c1)) = objects c1"
      "\<forall>rq \<in> set new. ?sent objs rq"
      by blast
    have "\<forall>rq \<in> set new. ?sent (obj # objs) rq"
      using new(3) by (metis list.set_intros(2))
    then have tail: "\<forall>rq \<in> set (replicate n ?rq @ new). ?sent (obj # objs) rq"
      using head by (metis Un_iff set_append)
    have go: ?thesis
      if "snd (verify_loop restMap steps rel resourceID (obj # objs) c)
            = snd (verify_loop restMap steps rel resourceID objs c1)"
      using that c1 new(1,2) tail
      by (intro exI [of _ "replicate n ?rq @ new"]) (simp only: simp_thms append_assoc)
    have "snd (verify_loop restMap steps rel resourceID (obj # objs) c) = c1
        \<or> snd (verify_loop restMap steps rel resourceID (obj # objs) c)
            = snd (verify_loop restMap steps rel resourceID objs c1)"
      using f Inr
      by (auto simp: verify_loop_resolved simp del: verify_loop.simps split: option.splits)
    then show ?thesis
      using stop go by blast
  qed
qed

lemma annotatedWithResourceID_loop:
  assumes "NewForConfig kubeConfig = None"
    and "buildDiscoveryRestMapper kubeConfig = Inr restMap"
  shows "snd (annotatedWithResourceID lib steps kubeConfig rel resourceID c)
     = snd (verify_loop restMap steps rel resourceID
              (fst (releaseManifestToUnstructured lib (Manifest rel) NopLogger)) c)"
  using assms
  by (simp add: annotatedWithResourceID_def Let_def split: prod.splits option.splits)

lemma annotatedWithResourceID_unbuilt:
  assumes "NewForConfig kubeConfig \<noteq> None \<or> (\<exists>err. buildDiscoveryRestMapper kubeConfig = Inl err)"
  shows "snd (annotatedWithResourceID lib steps kubeConfig rel resourceID c) = c"
  using assms
  by (auto simp: annotatedWithResourceID_def split: option.splits sum.splits)

text \<open>
  Claim C9. Whatever the manifest, the identifier and the cluster,
  \<open>annotatedWithResourceID\<close> leaves the objects of the cluster as they were, and every
  request it sends through the dynamic client is a get. (The cluster's list of coming
  failures is used up by the requests; it is no state of the backend that a client can
  observe.)
\<close>

theorem verify_is_read_only:
  "objects (snd (annotatedWithResourceID lib steps kubeConfig rel resourceID c)) = objects c
   \<and> (\<exists>new. requests (snd (annotatedWithResourceID lib steps kubeConfig rel resourceID c))
                = requests c @ new
            \<and> (\<forall>rq \<in> set new. is_Get rq))"
proof (cases "NewForConfig kubeConfig = None
    \<and> (\<exists>restMap. buildDiscoveryRestMapper kubeConfig = Inr restMap)")
  case True
  then obtain restMap where built: "NewForConfig kubeConfig = None"
    "buildDiscoveryRestMapper kubeConfig = Inr restMap"
    by blast
  let ?objs = "fst (releaseManifestToUnstructured lib (Manifest rel) NopLogger)"
  obtain new where new:
    "requests (snd (verify_loop restMap steps rel resourceID ?objs c)) = requests c @ new"
    "objects (snd (verify_loop restMap steps rel resourceID ?objs c)) = objects c"
    "\<forall>rq \<in> set new. \<exists>obj \<in> set ?objs. \<exists>resource.
           restMap (GetGroup obj, GetKind obj) (GetVersion obj) = Inr resource
           \<and> rq = GetRequest resource (addressed_namespace rel obj) (GetName obj)"
    using verify_loop_frame [of restMap steps rel resourceID ?objs c] by blast
  have "\<forall>rq \<in> set new. is_Get rq"
    using new(3) by (auto simp: is_Get_def)
  then show ?thesis
    using new(1,2) by (auto simp: annotatedWithResourceID_loop [OF built])
next
  case False
  then have "NewForConfig kubeConfig \<noteq> None
      \<or> (\<exists>err. buildDiscoveryRestMapper kubeConfig = Inl err)"
    by (metis sum.exhaust)
  then show ?thesis
    by (simp add: annotatedWithResourceID_unbuilt)
qed

text \<open>On the example: four requests, all of them gets, and the objects as before.\<close>

theorem verify_is_read_only_witness:
  "objects (snd (annotatedWithResourceID example_lib 4 example_config example_release
        example_ID example_cluster)) = example_objects
   \<and> list_all is_Get (requests (snd (annotatedWithResourceID example_lib 4 example_config
        example_release example_ID example_cluster)))
   \<and> length (requests (snd (annotatedWithResourceID example_lib 4 example_config
        example_release example_ID example_cluster))) = 4"
proof -
  have "length (requests (snd (annotatedWithResourceID example_lib 4 example_config
        example_release example_ID example_cluster))) = 4"
    by code_simp
  then show ?thesis
    using verify_is_read_only [of example_lib 4 example_config example_release example_ID
        example_cluster]
    by (auto simp: example_cluster_def list_all_iff)
qed

subsection \<open>The namespace of a request\<close>

lemma fetch_frame_pos:
  assumes "0 < steps"
  shows "\<exists>n. 0 < n \<and> n \<le> steps
           \<and> snd (snd (fetch steps r ns name c)) = asked n (GetRequest r ns name) c"
proof -
  obtain k where k: "steps = Suc k"
    using assms by (cases steps) auto
  obtain ok e res' err' c' where cond:
    "condition r ns name (None, None, c) = ((ok, e), (res', err', c'))"
    by (metis prod.collapse)
  have c': "c' = asked (Suc 0) (GetRequest r ns name) c"
    using condition_cluster [of r ns name None None c] cond by simp
  show ?thesis
  proof (cases "e = None \<and> \<not> ok")
    case True
    obtain m where "m \<le> k"
      "snd (snd (snd (ExponentialBackoff k (condition r ns name) (res', err', c'))))
         = asked m (GetRequest r ns name) c'"
      using backoff_frame [of k r ns name res' err' c'] by blast
    then show ?thesis
      using True cond c' k
      by (intro exI [of _ "Suc m"]) (simp add: fetch_def asked_asked)
  next
    case False
    then show ?thesis
      using cond c' k
      by (intro exI [of _ "Suc 0"]) (auto simp: fetch_def split: option.splits)
  qed
qed

lemma verify_loop_reaches:
  assumes steps: "0 < steps"
    and before: "verify_loop restMap steps rel resourceID before c = (None, c1)"
    and resolved: "restMap (GetGroup obj, GetKind obj) (GetVersion obj) = Inr resource"
  shows "\<exists>n more. 0 < n \<and> n \<le> steps
     \<and> requests (snd (verify_loop restMap steps rel resourceID (before @ obj # after) c))
         = requests c1
           @ replicate n (GetRequest resource (addressed_namespace rel obj) (GetName obj))
           @ more"
proof -
  let ?rq = "GetRequest resource (addressed_namespace rel obj) (GetName obj)"
  have split: "verify_loop restMap steps rel resourceID (before @ obj # after) c
      = verify_loop restMap steps rel resourceID (obj # after) c1"
    using before by (simp only: verify_loop_append prod.case option.case)
  obtain res err c2 where f:
    "fetch steps resource (addressed_namespace rel obj) (GetName obj) c1 = (res, err, c2)"
    by (metis prod.collapse)
  obtain n where n: "0 < n" "n \<le> steps" "c2 = asked n ?rq c1"
    using fetch_frame_pos [OF steps, of resource "addressed_namespace rel obj" "GetName obj" c1]
      f by auto
  then have c2: "requests c2 = requests c1 @ replicate n ?rq"
    by (simp add: asked_def)
  obtain new where new:
    "requests (snd (verify_loop restMap steps rel resourceID after c2)) = requests c2 @ new"
    using verify_loop_frame [of restMap steps rel resourceID after c2] by blast
  have "snd (verify_loop restMap steps rel resourceID (obj # after) c1) = c2
      \<or> snd (verify_loop restMap steps rel resourceID (obj # after) c1)
          = snd (verify_loop restMap steps rel resourceID after c2)"
    using f resolved
    by (auto simp: verify_loop_resolved simp del: verify_loop.simps split: option.splits)
  then show ?thesis
  proof
    assume "snd (verify_loop restMap steps rel resourceID (obj # after) c1) = c2"
    then show ?thesis
      using n(1,2) c2 split by (intro exI [of _ n] exI [of _ "[]"]) simp
  next
    assume "snd (verify_loop restMap steps rel resourceID (obj # after) c1)
          = snd (verify_loop restMap steps rel resourceID after c2)"
    then show ?thesis
      using n(1,2) c2 new split by (intro exI [of _ n] exI [of _ new]) simp
  qed
qed

lemma set_patch_requests:
  "rq \<in> set (patch_requests restMap rel body objs) \<longleftrightarrow>
     (\<exists>obj \<in> set objs. \<exists>resource.
        restMap (GetGroup obj, GetKind obj) (GetVersion obj) = Inr resource
        \<and> rq = PatchRequest resource (addressed_namespace rel obj) (GetName obj)
                 MergePatchType body)"
proof (induction objs)
  case Nil
  show ?case by (simp add: patch_requests_def)
next
  case (Cons o' objs)
  have "patch_requests restMap rel body (o' # objs)
      = (case restMap (GetGroup o', GetKind o') (GetVersion o') of
           Inl err \<Rightarrow> []
         | Inr resource \<Rightarrow>
             [PatchRequest resource (addressed_namespace rel o') (GetName o') MergePatchType
                body])
        @ patch_requests restMap rel body objs"
    by (simp add: patch_requests_def)
  then have step: "rq \<in> set (patch_requests restMap rel body (o' # objs)) \<longleftrightarrow>
      (\<exists>resource. restMap (GetGroup o', GetKind o') (GetVersion o') = Inr resource
         \<and> rq = PatchRequest resource (addressed_namespace rel o') (GetName o')
                  MergePatchType body)
      \<or> rq \<in> set (patch_requests restMap rel body objs)"
    by (cases "restMap (GetGroup o', GetKind o') (GetVersion o')") simp_all
  show ?case
    unfolding step Cons.IH by (simp only: set_simps bex_simps) blast
qed

text \<open>
  Claim C8. In \<open>annotatedWithResourceID\<close>, a descriptor that the loop reaches (the ones
  before it ended neither in an error nor in an annotation) and whose type resolves is
  asked for at once, at least once and at most \<open>steps\<close> times, under its name and under
  its namespace, or under the namespace of the release when its own is empty; and no get
  is sent that is not of this kind for some descriptor of the manifest. In
  \<open>annotateWithResourceID\<close>, the patches sent are those of the descriptors whose type
  resolves, each under the name of the descriptor and under its namespace, or under the
  namespace of the release when its own is empty.
\<close>

theorem requests_use_the_defaulted_namespace:
  assumes client: "NewForConfig kubeConfig = None"
    and mapper: "buildDiscoveryRestMapper kubeConfig = Inr restMap"
  shows "(\<forall>before obj after c1 resource.
            0 < steps \<longrightarrow>
            fst (releaseManifestToUnstructured lib (Manifest rel) NopLogger)
              = before @ obj # after \<longrightarrow>
            verify_loop restMap steps rel resourceID before c = (None, c1) \<longrightarrow>
            restMap (GetGroup obj, GetKind obj) (GetVersion obj) = Inr resource \<longrightarrow>
            (\<exists>n more. 0 < n \<and> n \<le> steps
               \<and> requests (snd (annotatedWithResourceID lib steps kubeConfig rel resourceID c))
                   = requests c1
                     @ replicate n
                         (GetRequest resource
                            (if GetNamespace obj = [] then Namespace rel
                             else GetNamespace obj)
                            (GetName obj))
                     @ more))
    \<and> (\<exists>new. requests (snd (annotatedWithResourceID lib steps kubeConfig rel resourceID c))
                = requests c @ new
            \<and> (\<forall>rq \<in> set new.
                  \<exists>obj \<in> set (fst (releaseManifestToUnstructured lib (Manifest rel) NopLogger)).
                  \<exists>resource.
                    restMap (GetGroup obj, GetKind obj) (GetVersion obj) = Inr resource
                    \<and> rq = GetRequest resource
                             (if GetNamespace obj = [] then Namespace rel
                              else GetNamespace obj)
                             (GetName obj)))
    \<and> (\<exists>new. requests (snd (snd
                  (annotateWithResourceID lib logger kubeConfig rel resourceID c')))
                = requests c' @ new
            \<and> (\<forall>rq. rq \<in> set new \<longleftrightarrow>
                  (\<exists>obj \<in> set (fst (releaseManifestToUnstructured lib (Manifest rel) logger)).
                   \<exists>resource.
                     restMap (GetGroup obj, GetKind obj) (GetVersion obj) = Inr resource
                     \<and> rq = PatchRequest resource
                              (if GetNamespace obj = [] then Namespace rel
                               else GetNamespace obj)
                              (GetName obj) MergePatchType (annotation_body resourceID))))"
proof (intro conjI allI impI)
  fix before obj after c1 resource
  assume steps: "0 < steps"
    and objs: "fst (releaseManifestToUnstructured lib (Manifest rel) NopLogger)
                 = before @ obj # after"
    and before: "verify_loop restMap steps rel resourceID before c = (None, c1)"
    and resolved: "restMap (GetGroup obj, GetKind obj) (GetVersion obj) = Inr resource"
  show "\<exists>n more. 0 < n \<and> n \<le> steps
               \<and> requests (snd (annotatedWithResourceID lib steps kubeConfig rel resourceID c))
                   = requests c1
                     @ replicate n
                         (GetRequest resource
                            (if GetNamespace obj = [] then Namespace rel
                             else GetNamespace obj)
                            (GetName obj))
                     @ more"
    using verify_loop_reaches [OF steps before, where obj = obj and after = after,
        OF resolved]
    unfolding annotatedWithResourceID_loop [OF client mapper] objs addressed_namespace_def .
next
  show "\<exists>new. requests (snd (annotatedWithResourceID lib steps kubeConfig rel resourceID c))
                = requests c @ new
            \<and> (\<forall>rq \<in> set new.
                  \<exists>obj \<in> set (fst (releaseManifestToUnstructured lib (Manifest rel) NopLogger)).
                  \<exists>resource.
                    restMap (GetGroup obj, GetKind obj) (GetVersion obj) = Inr resource
                    \<and> rq = GetRequest resource
                             (if GetNamespace obj = [] then Namespace rel
                              else GetNamespace obj)
                             (GetName obj))"
    using verify_loop_frame [of restMap steps rel resourceID
        "fst (releaseManifestToUnstructured lib (Manifest rel) NopLogger)" c]
    unfolding annotatedWithResourceID_loop [OF client mapper] addressed_namespace_def
    by blast
next
  let ?new = "patch_requests restMap rel (annotation_body resourceID)
                (fst (releaseManifestToUnstructured lib (Manifest rel) logger))"
  have "requests (snd (snd (annotateWithResourceID lib logger kubeConfig rel resourceID c')))
      = requests c' @ ?new"
    using client mapper by (simp add: annotateWithResourceID_loop annotate_loop_requests)
  then show "\<exists>new. requests (snd (snd
                  (annotateWithResourceID lib logger kubeConfig rel resourceID c')))
                = requests c' @ new
            \<and> (\<forall>rq. rq \<in> set new \<longleftrightarrow>
                  (\<exists>obj \<in> set (fst (releaseManifestToUnstructured lib (Manifest rel) logger)).
                   \<exists>resource.
                     restMap (GetGroup obj, GetKind obj) (GetVersion obj) = Inr resource
                     \<and> rq = PatchRequest resource
                              (if GetNamespace obj = [] then Namespace rel
                               else GetNamespace obj)
                              (GetName obj) MergePatchType (annotation_body resourceID)))"
    using set_patch_requests [of _ restMap rel "annotation_body resourceID"
        "fst (releaseManifestToUnstructured lib (Manifest rel) logger)"]
    unfolding addressed_namespace_def
    by (intro exI [of _ ?new]) blast
qed

text \<open>
  On the example: the Deployment, reached first and without a namespace, is asked for in
  \<open>prod\<close>, the namespace of the release, from the first request on; the Service, reached
  after two requests, in \<open>other\<close>, its own. The three patches of a claim go to \<open>prod\<close>,
  \<open>other\<close> and \<open>prod\<close>.
\<close>

theorem requests_use_the_defaulted_namespace_witness:
  "requests (snd (annotatedWithResourceID example_lib 4 example_config example_release
          example_ID example_cluster)) ! 0
     = GetRequest (''apps'', ''v1'', ''deployments'') ''prod'' ''web''
   \<and> requests (snd (annotatedWithResourceID example_lib 4 example_config example_release
          example_ID example_cluster)) ! 2
     = GetRequest ([], ''v1'', ''services'') ''other'' ''svc''
   \<and> requests (snd (annotatedWithResourceID example_lib 4 example_config example_release
          example_ID example_cluster))
     = [GetRequest (''apps'', ''v1'', ''deployments'') ''prod'' ''web'',
        GetRequest (''apps'', ''v1'', ''deployments'') ''prod'' ''web'',
        GetRequest ([], ''v1'', ''services'') ''other'' ''svc'',
        GetRequest ([], ''v1'', ''services'') ''other'' ''svc'']
   \<and> set (requests (snd (snd (annotateWithResourceID example_lib NopLogger example_config
          example_release example_ID quiet_cluster))))
     = {PatchRequest (''apps'', ''v1'', ''deployments'') ''prod'' ''web'' MergePatchType
          (annotation_body example_ID),
        PatchRequest ([], ''v1'', ''services'') ''other'' ''svc'' MergePatchType
          (annotation_body example_ID),
        PatchRequest ([], ''v1'', ''configmaps'') ''prod'' ''cm'' MergePatchType
          (annotation_body example_ID)}"
proof -
  let ?run = "annotatedWithResourceID example_lib 4 example_config example_release
                example_ID example_cluster"
  have h1: "NewForConfig example_config = None"
    by (simp add: example_config_def)
  have h2: "buildDiscoveryRestMapper example_config = Inr example_restMap"
    by (simp add: buildDiscoveryRestMapper_def example_config_def)
  have d: "fst (releaseManifestToUnstructured example_lib (Manifest example_release) NopLogger)
             = [widget, deployment, service, configmap]"
    by code_simp
  note defs = widget_def deployment_def service_def configmap_def example_restMap_def
    example_release_def
  note c8 = requests_use_the_defaulted_namespace
      [OF h1 h2, where lib = example_lib and steps = 4 and rel = example_release
         and resourceID = example_ID and c = example_cluster and logger = NopLogger
         and c' = quiet_cluster]
  have reached: "\<exists>n more. 0 < n \<and> n \<le> 4
       \<and> requests (snd ?run)
           = requests c1
             @ replicate n
                 (GetRequest resource
                    (if GetNamespace obj = [] then Namespace example_release
                     else GetNamespace obj)
                    (GetName obj))
             @ more"
    if "[widget, deployment, service, configmap] = before @ obj # after"
      and "verify_loop example_restMap 4 example_release example_ID before example_cluster
             = (None, c1)"
      and "example_restMap (GetGroup obj, GetKind obj) (GetVersion obj) = Inr resource"
    for before obj after c1 resource
  proof -
    have "(0::nat) < 4" by simp
    then show ?thesis
      using c8 [THEN conjunct1, rule_format, of before obj after c1 resource] that d
      by simp
  qed
  have first: "requests (snd ?run) ! 0
      = GetRequest (''apps'', ''v1'', ''deployments'') ''prod'' ''web''"
  proof -
    have "[widget, deployment, service, configmap] = [widget] @ deployment # [service, configmap]"
      by simp
    moreover have "verify_loop example_restMap 4 example_release example_ID [widget]
        example_cluster = (None, example_cluster)"
      by (simp add: defs)
    moreover have "example_restMap (GetGroup deployment, GetKind deployment)
        (GetVersion deployment) = Inr (''apps'', ''v1'', ''deployments'')"
      by (simp add: defs)
    ultimately obtain n more where "0 < n"
      "requests (snd ?run)
         = requests example_cluster
           @ replicate n
               (GetRequest (''apps'', ''v1'', ''deployments'')
                  (if GetNamespace deployment = [] then Namespace example_release
                   else GetNamespace deployment)
                  (GetName deployment))
           @ more"
      using reached by blast
    then show ?thesis
      by (cases n) (simp_all add: example_cluster_def defs)
  qed
  have second: "requests (snd ?run) ! 2 = GetRequest ([], ''v1'', ''services'') ''other'' ''svc''"
  proof -
    define c1 where "c1 = snd (verify_loop example_restMap 4 example_release example_ID
                                 [widget, deployment] example_cluster)"
    have "[widget, deployment, service, configmap] = [widget, deployment] @ service # [configmap]"
      by simp
    moreover have "fst (verify_loop example_restMap 4 example_release example_ID
        [widget, deployment] example_cluster) = None"
      by code_simp
    then have "verify_loop example_restMap 4 example_release example_ID [widget, deployment]
        example_cluster = (None, c1)"
      by (simp add: c1_def prod_eq_iff)
    moreover have "example_restMap (GetGroup service, GetKind service) (GetVersion service)
        = Inr ([], ''v1'', ''services'')"
      by (simp add: defs)
    ultimately obtain n more where "0 < n"
      "requests (snd ?run)
         = requests c1
           @ replicate n
               (GetRequest ([], ''v1'', ''services'')
                  (if GetNamespace service = [] then Namespace example_release
                   else GetNamespace service)
                  (GetName service))
           @ more"
      using reached by blast
    moreover have "length (requests c1) = 2"
      unfolding c1_def by code_simp
    ultimately show ?thesis
      by (cases n) (simp_all add: defs nth_append)
  qed
  have all: "requests (snd ?run)
     = [GetRequest (''apps'', ''v1'', ''deployments'') ''prod'' ''web'',
        GetRequest (''apps'', ''v1'', ''deployments'') ''prod'' ''web'',
        GetRequest ([], ''v1'', ''services'') ''other'' ''svc'',
        GetRequest ([], ''v1'', ''services'') ''other'' ''svc'']"
    by code_simp
  from c8 [THEN conjunct2, THEN conjunct2] obtain patches where
    patches: "requests (snd (snd (annotateWithResourceID example_lib NopLogger
              example_config example_release example_ID quiet_cluster)))
            = requests quiet_cluster @ patches"
      "\<forall>rq. rq \<in> set patches \<longleftrightarrow>
         (\<exists>obj \<in> set [widget, deployment, service, configmap]. \<exists>resource.
            example_restMap (GetGroup obj, GetKind obj) (GetVersion obj) = Inr resource
            \<and> rq = PatchRequest resource
                     (if GetNamespace obj = [] then Namespace example_release
                      else GetNamespace obj)
                     (GetName obj) MergePatchType (annotation_body example_ID))"
    unfolding d by blast
  have "set patches
     = {PatchRequest (''apps'', ''v1'', ''deployments'') ''prod'' ''web'' MergePatchType
          (annotation_body example_ID),
        PatchRequest ([], ''v1'', ''services'') ''other'' ''svc'' MergePatchType
          (annotation_body example_ID),
        PatchRequest ([], ''v1'', ''configmaps'') ''prod'' ''cm'' MergePatchType
          (annotation_body example_ID)}"
    using patches(2) by (auto simp: defs)
  then show ?thesis
    using first second all patches(1) by (simp add: quiet_cluster_def)
qed

subsection \<open>The body of the patch and what it does to an object\<close>

lemma string_body_plain:
  "plain_text s \<Longrightarrow> string_body (s @ CHR 0x22 # rest) = Some (s, rest)"
proof (induction s)
  case Nil
  show ?case by simp
next
  case (Cons ch s)
  then have "plain_char ch" and "plain_text s"
    by (simp_all add: plain_text_def)
  then show ?case
    using Cons.IH by (simp add: plain_char_def is_control_def)
qed

lemma parse_annotation_body:
  "plain_text v \<Longrightarrow>
   parse_value (Suc (Suc (Suc (Suc (Suc (Suc (Suc n)))))))
     (annotation_body (ID v)) = Some (annotation_patch v, [])"
  apply (simp add: annotation_body_def AntecedentAnnotation_def annotation_patch_def
      skip_ws_def is_ws_def is_control_def)
  apply (simp add: string_body_plain skip_ws_def is_ws_def)
  done

lemma decode_annotation_body:
  assumes "plain_text v"
  shows "decode_json (annotation_body (ID v)) = Some (annotation_patch v)"
proof -
  obtain n where "length (annotation_body (ID v)) = Suc (Suc (Suc (Suc (Suc (Suc (Suc n))))))"
    by (simp add: annotation_body_def)
  then show ?thesis
    using parse_annotation_body [OF assms, of n]
    by (simp add: decode_json_def skip_ws_def)
qed

lemma annotation_patch_path: "annotation_patch v = path_patch antecedent_path (JString v)"
  by (simp add: annotation_patch_def antecedent_path_def)

lemma MergePatch_idem: "MergePatch p (MergePatch p t) = MergePatch p t"
proof (induction p arbitrary: t)
  case (JObject pm)
  show ?case
    apply simp
    apply (rule fmap_ext)
    using JObject
    apply (auto simp: members_def target_at_def fmlookup_dom_iff fmran'I split: option.splits)
    done
qed simp_all

lemma field_MergePatch_single:
  "pp \<noteq> JNull \<Longrightarrow>
   field (MergePatch (JObject (fmupd k pp fmempty)) t) q
     = (if q = k then Some (MergePatch pp (target_at (members t) k)) else field t q)"
  by (auto simp: field_def members_def fmlookup_dom_iff split: option.splits)

lemma path_patch_not_null: "path_patch ks (JString s) \<noteq> JNull"
  by (cases ks) simp_all

lemma nested_MergePatch_at:
  "nested (MergePatch (path_patch ks (JString s)) t) ks = Some (JString s)"
  by (induction ks arbitrary: t)
    (simp_all add: field_MergePatch_single path_patch_not_null del: MergePatch.simps(6))

lemma nested_no_members: "p \<noteq> [] \<Longrightarrow> nested JNull p = None"
  by (cases p) (simp_all add: field_def members_def)

lemma nested_MergePatch_apart:
  "apart p ks \<Longrightarrow> nested (MergePatch (path_patch ks (JString s)) t) p = nested t p"
proof (induction ks arbitrary: t p)
  case Nil
  then show ?case by (simp add: apart_def)
next
  case (Cons k ks)
  from Cons.prems obtain q p' where p: "p = q # p'"
    by (cases p) (auto simp: apart_def)
  show ?case
  proof (cases "q = k")
    case False
    then show ?thesis
      using p
      by (simp add: field_MergePatch_single path_patch_not_null del: MergePatch.simps(6))
  next
    case True
    then have ap: "apart p' ks"
      using Cons.prems p by (simp add: apart_def)
    then have "p' \<noteq> []"
      by (auto simp: apart_def)
    then have null: "nested JNull p' = None"
      by (rule nested_no_members)
    have "nested (MergePatch (path_patch (k # ks) (JString s)) t) (k # p')
        = nested (target_at (members t) k) p'"
      using Cons.IH [OF ap]
      by (simp add: field_MergePatch_single path_patch_not_null del: MergePatch.simps(6))
    also have "\<dots> = nested t (k # p')"
      using null by (cases "field t k") (simp_all add: target_at_def field_def)
    finally show ?thesis
      using p True by simp
  qed
qed

lemma client_Patch_objects:
  "objects (snd (client_Patch r ns name pt body c)) = objects c
   \<or> (\<exists>p t. decode_json body = Some p \<and> objects c (r, ns, name) = Some t
        \<and> objects (snd (client_Patch r ns name pt body c))
            = (objects c)((r, ns, name) \<mapsto> MergePatch p t))"
  by (auto simp: client_Patch_def next_outcome_def Let_def
      split: list.splits option.splits)

lemma client_Patch_served:
  assumes "outcomes c = [] \<or> (\<exists>t. outcomes c = None # t)"
    and "objects c (r, ns, name) = Some live"
    and "decode_json body = Some p"
  shows "fst (client_Patch r ns name MergePatchType body c) = Inr (MergePatch p live)
    \<and> objects (snd (client_Patch r ns name MergePatchType body c))
        = (objects c)((r, ns, name) \<mapsto> MergePatch p live)"
  using assms
  by (auto simp: client_Patch_def next_outcome_def Let_def split: list.splits)

lemma annotate_loop_objects:
  "objects (snd (annotate_loop restMap rel body objs logger c)) k = objects c k
   \<or> (\<exists>p t. decode_json body = Some p \<and> objects c k = Some t
        \<and> objects (snd (annotate_loop restMap rel body objs logger c)) k
            = Some (MergePatch p t))"
proof (induction objs arbitrary: logger c)
  case Nil
  show ?case by simp
next
  case (Cons obj objs)
  show ?case
  proof (cases "restMap (GetGroup obj, GetKind obj) (GetVersion obj)")
    case (Inl err)
    then show ?thesis
      using Cons.IH by simp
  next
    case (Inr resource)
    let ?patch = "client_Patch resource (addressed_namespace rel obj) (GetName obj)
                    MergePatchType body c"
    obtain r c' where p: "?patch = (r, c')"
      by (metis prod.collapse)
    obtain logger' where loop:
      "annotate_loop restMap rel body (obj # objs) logger c
         = annotate_loop restMap rel body objs logger' c'"
      using Inr p
      by (cases r) (simp_all add: annotate_loop_resolved del: annotate_loop.simps)
    have first: "objects c' k = objects c k
        \<or> (\<exists>p t. decode_json body = Some p \<and> objects c k = Some t
             \<and> objects c' k = Some (MergePatch p t))"
      using client_Patch_objects [of resource "addressed_namespace rel obj" "GetName obj"
          MergePatchType body c] p
      by (cases "k = (resource, addressed_namespace rel obj, GetName obj)") auto
    from Cons.IH [of logger' c']
    have rest: "objects (snd (annotate_loop restMap rel body objs logger' c')) k = objects c' k
        \<or> (\<exists>p t. decode_json body = Some p \<and> objects c' k = Some t
             \<and> objects (snd (annotate_loop restMap rel body objs logger' c')) k
                 = Some (MergePatch p t))" .
    let ?final = "objects (snd (annotate_loop restMap rel body objs logger' c')) k"
    from first show ?thesis
      unfolding loop
    proof (elim disjE exE conjE)
      assume same: "objects c' k = objects c k"
      show "?final = objects c k
          \<or> (\<exists>p t. decode_json body = Some p \<and> objects c k = Some t
               \<and> ?final = Some (MergePatch p t))"
        using rest unfolding same .
    next
      fix p t
      assume d: "decode_json body = Some p" and o: "objects c k = Some t"
        and o': "objects c' k = Some (MergePatch p t)"
      have "?final = Some (MergePatch p t)"
        using rest d o' by (auto simp: MergePatch_idem)
      then show "?final = objects c k
          \<or> (\<exists>p t. decode_json body = Some p \<and> objects c k = Some t
               \<and> ?final = Some (MergePatch p t))"
        using d o by blast
    qed
  qed
qed

lemma annotateWithResourceID_objects:
  "objects (snd (snd (annotateWithResourceID lib logger kubeConfig rel resourceID c))) k
     = objects c k
   \<or> (\<exists>p t. decode_json (annotation_body resourceID) = Some p \<and> objects c k = Some t
        \<and> objects (snd (snd (annotateWithResourceID lib logger kubeConfig rel resourceID c))) k
            = Some (MergePatch p t))"
proof (cases "NewForConfig kubeConfig = None
    \<and> (\<exists>restMap. buildDiscoveryRestMapper kubeConfig = Inr restMap)")
  case True
  then obtain restMap where "NewForConfig kubeConfig = None"
    "buildDiscoveryRestMapper kubeConfig = Inr restMap"
    by blast
  then show ?thesis
    using annotate_loop_objects [of restMap rel "annotation_body resourceID" _ _ c k]
    by (simp add: annotateWithResourceID_loop)
next
  case False
  then show ?thesis
    by (auto simp: annotateWithResourceID_def split: option.splits sum.splits)
qed

subsection \<open>One body for all patches\<close>

lemma annotation_body_bytes:
  "annotation_body resourceID = body_prefix @ String resourceID @ body_suffix"
  by (simp add: annotation_body_def body_prefix_def body_suffix_def AntecedentAnnotation_def)

lemma request_body_patch_requests:
  "rq \<in> set (patch_requests restMap rel body objs) \<Longrightarrow> request_body rq = Some body"
  by (auto simp: set_patch_requests request_body_def)

text \<open>
  Claim C10, as amended. Every patch that one call of \<open>annotateWithResourceID\<close> sends has
  the same body: the bytes \<open>{"metadata":{"annotations":{"helm.fluxcd.io/antecedent":"\<close>,
  the identifier's string form as it is, and \<open>"}}}\<close>. When the identifier's string form
  is plain text (ASCII without control characters, double quote and backslash), the body
  is well-formed JSON and decodes to the document that sets the antecedent annotation to
  it. (With other characters the body can be malformed, or well-formed with another
  meaning; see the examples that follow.)
\<close>

theorem claim_sends_one_unescaped_body:
  "(\<forall>restMap.
      NewForConfig kubeConfig = None \<longrightarrow>
      buildDiscoveryRestMapper kubeConfig = Inr restMap \<longrightarrow>
      (\<exists>new. requests (snd (snd (annotateWithResourceID lib logger kubeConfig rel resourceID c)))
               = requests c @ new
           \<and> (\<forall>rq \<in> set new.
                 request_body rq = Some (body_prefix @ String resourceID @ body_suffix))))
   \<and> (plain_text (String resourceID) \<longrightarrow>
        decode_json (body_prefix @ String resourceID @ body_suffix)
          = Some (annotation_patch (String resourceID)))"
proof (intro conjI allI impI)
  fix restMap
  assume built: "NewForConfig kubeConfig = None"
    "buildDiscoveryRestMapper kubeConfig = Inr restMap"
  let ?new = "patch_requests restMap rel (annotation_body resourceID)
                (fst (releaseManifestToUnstructured lib (Manifest rel) logger))"
  have "requests (snd (snd (annotateWithResourceID lib logger kubeConfig rel resourceID c)))
      = requests c @ ?new"
    using built by (simp add: annotateWithResourceID_loop annotate_loop_requests)
  moreover have "\<forall>rq \<in> set ?new.
      request_body rq = Some (body_prefix @ String resourceID @ body_suffix)"
    using request_body_patch_requests [of _ restMap rel "annotation_body resourceID"]
    by (simp add: annotation_body_bytes)
  ultimately show "\<exists>new.
      requests (snd (snd (annotateWithResourceID lib logger kubeConfig rel resourceID c)))
        = requests c @ new
      \<and> (\<forall>rq \<in> set new.
            request_body rq = Some (body_prefix @ String resourceID @ body_suffix))"
    by blast
next
  assume "plain_text (String resourceID)"
  then have "decode_json (annotation_body (ID (String resourceID)))
      = Some (annotation_patch (String resourceID))"
    by (rule decode_annotation_body)
  then show "decode_json (body_prefix @ String resourceID @ body_suffix)
      = Some (annotation_patch (String resourceID))"
    by (simp add: annotation_body_bytes)
qed

text \<open>
  The claim as it stands says that the body is well-formed only when the identifier has no
  such character. An identifier with two backslashes is not plain text, and its body is
  well-formed: it sets the annotation to the text with one backslash.
\<close>

theorem claim_sends_one_unescaped_body_counterexample:
  "\<not> plain_text (String escaping_ID)
   \<and> decode_json (body_prefix @ String escaping_ID @ body_suffix)
       = Some (annotation_patch [CHR ''a'', CHR 0x5C, CHR ''b''])"
  by code_simp

text \<open>
  On the example: the three patches of the call carry the one body, which decodes to the
  document meant. The body of an identifier with a double quote does not decode.
\<close>

theorem claim_sends_one_unescaped_body_witness:
  "map request_body (requests (snd (snd (annotateWithResourceID example_lib NopLogger
       example_config example_release example_ID quiet_cluster))))
     = replicate 3 (Some (body_prefix @ ''prod:helmrelease/app'' @ body_suffix))
   \<and> decode_json (body_prefix @ ''prod:helmrelease/app'' @ body_suffix)
       = Some (annotation_patch ''prod:helmrelease/app'')
   \<and> decode_json (body_prefix @ String quoting_ID @ body_suffix) = None"
proof -
  let ?run = "annotateWithResourceID example_lib NopLogger example_config example_release
                example_ID quiet_cluster"
  have h1: "NewForConfig example_config = None"
    by (simp add: example_config_def)
  have h2: "buildDiscoveryRestMapper example_config = Inr example_restMap"
    by (simp add: buildDiscoveryRestMapper_def example_config_def)
  have plain: "plain_text (String example_ID)"
    by code_simp
  note c10 = claim_sends_one_unescaped_body [of example_config example_lib NopLogger
      example_release example_ID quiet_cluster]
  from c10 h1 h2 obtain new where new:
    "requests (snd (snd ?run)) = requests quiet_cluster @ new"
    "\<forall>rq \<in> set new.
       request_body rq = Some (body_prefix @ String example_ID @ body_suffix)"
    by blast
  have "length (requests (snd (snd ?run))) = 3"
    by code_simp
  then have "length new = 3"
    using new(1) by (simp add: quiet_cluster_def)
  moreover have "map request_body new
      = replicate (length new) (Some (body_prefix @ String example_ID @ body_suffix))"
    using new(2) by (simp add: map_replicate_const [symmetric] cong: map_cong)
  ultimately have "map request_body (requests (snd (snd ?run)))
      = replicate 3 (Some (body_prefix @ ''prod:helmrelease/app'' @ body_suffix))"
    using new(1) by (simp add: quiet_cluster_def example_ID_def)
  moreover have "decode_json (body_prefix @ ''prod:helmrelease/app'' @ body_suffix)
       = Some (annotation_patch ''prod:helmrelease/app'')"
    using c10 plain by (simp add: example_ID_def)
  moreover have "decode_json (body_prefix @ String quoting_ID @ body_suffix) = None"
    by code_simp
  ultimately show ?thesis
    by blast
qed

subsection \<open>What a claim changes\<close>

lemma annotation_patch_sets:
  "nested (MergePatch (annotation_patch v) t) antecedent_path = Some (JString v)"
  by (simp only: annotation_patch_path nested_MergePatch_at)

lemma annotation_patch_frame:
  "apart p antecedent_path \<Longrightarrow> nested (MergePatch (annotation_patch v) t) p = nested t p"
  by (simp only: annotation_patch_path nested_MergePatch_apart)

text \<open>
  A descriptor whose type resolves, whose object the cluster holds and whose patch the
  cluster serves: after the loop the object is the one merged with the decoded body,
  whatever the patches before and after it did.
\<close>

lemma annotate_loop_patches:
  assumes decoded: "decode_json body = Some p"
    and resolved: "restMap (GetGroup obj, GetKind obj) (GetVersion obj) = Inr resource"
    and served: "outcomes (snd (annotate_loop restMap rel body before logger0 c)) = []
        \<or> (\<exists>t. outcomes (snd (annotate_loop restMap rel body before logger0 c)) = None # t)"
    and held: "objects c (resource, addressed_namespace rel obj, GetName obj) = Some live"
  shows "objects (snd (annotate_loop restMap rel body (before @ obj # after) logger c))
           (resource, addressed_namespace rel obj, GetName obj)
         = Some (MergePatch p live)"
proof -
  let ?key = "(resource, addressed_namespace rel obj, GetName obj)"
  obtain logger1 c1 where l1: "annotate_loop restMap rel body before logger c = (logger1, c1)"
    by (metis prod.collapse)
  then have c1: "c1 = snd (annotate_loop restMap rel body before logger0 c)"
    using annotate_loop_cluster [of restMap rel body before logger c logger0] by simp
  have "objects c1 ?key = objects c ?key
      \<or> (\<exists>p' t. decode_json body = Some p' \<and> objects c ?key = Some t
            \<and> objects c1 ?key = Some (MergePatch p' t))"
    using annotate_loop_objects [of restMap rel body before logger c ?key] l1 by simp
  then obtain t1 where t1: "objects c1 ?key = Some t1" "MergePatch p t1 = MergePatch p live"
    using held decoded by (auto simp: MergePatch_idem)
  have served1: "outcomes c1 = [] \<or> (\<exists>t. outcomes c1 = None # t)"
    using served c1 by simp
  obtain r c2 where patch:
    "client_Patch resource (addressed_namespace rel obj) (GetName obj) MergePatchType body c1
       = (r, c2)"
    by (metis prod.collapse)
  have r: "r = Inr (MergePatch p t1)"
    and c2: "objects c2 = (objects c1)(?key \<mapsto> MergePatch p t1)"
    using client_Patch_served [OF served1 t1(1) decoded] patch by simp_all
  have "annotate_loop restMap rel body (before @ obj # after) logger c
      = annotate_loop restMap rel body (obj # after) logger1 c1"
    using l1 by (simp only: annotate_loop_append prod.case)
  also have "\<dots> = annotate_loop restMap rel body after logger1 c2"
    using resolved patch r by (simp add: annotate_loop_resolved del: annotate_loop.simps)
  finally have loop: "annotate_loop restMap rel body (before @ obj # after) logger c
      = annotate_loop restMap rel body after logger1 c2" .
  have "objects c2 ?key = Some (MergePatch p live)"
    using c2 t1(2) by simp
  moreover have "objects (snd (annotate_loop restMap rel body after logger1 c2)) ?key
        = objects c2 ?key
      \<or> (\<exists>p' t. decode_json body = Some p' \<and> objects c2 ?key = Some t
            \<and> objects (snd (annotate_loop restMap rel body after logger1 c2)) ?key
                = Some (MergePatch p' t))"
    by (rule annotate_loop_objects)
  ultimately show ?thesis
    unfolding loop using decoded by (auto simp: MergePatch_idem)
qed

text \<open>
  With an identifier whose string form is plain text the claim does what its comment says:
  the object of such a descriptor holds the identifier's string form in its antecedent
  annotation after the call, and is what it was at every path that neither leads to the
  annotation nor lies below it.
\<close>

lemma claim_sets_the_annotation:
  assumes plain: "plain_text (String resourceID)"
    and client: "NewForConfig kubeConfig = None"
    and mapper: "buildDiscoveryRestMapper kubeConfig = Inr restMap"
    and objs: "fst (releaseManifestToUnstructured lib (Manifest rel) logger)
                 = before @ obj # after"
    and resolved: "restMap (GetGroup obj, GetKind obj) (GetVersion obj) = Inr resource"
    and served: "outcomes (snd (annotate_loop restMap rel (annotation_body resourceID) before
                                  NopLogger c)) = []
        \<or> (\<exists>t. outcomes (snd (annotate_loop restMap rel (annotation_body resourceID) before
                                  NopLogger c)) = None # t)"
    and held: "objects c (resource, addressed_namespace rel obj, GetName obj) = Some live"
  shows "\<exists>live'.
      objects (snd (snd (annotateWithResourceID lib logger kubeConfig rel resourceID c)))
        (resource, addressed_namespace rel obj, GetName obj) = Some live'
      \<and> nested live' antecedent_path = Some (JString (String resourceID))
      \<and> (\<forall>p. apart p antecedent_path \<longrightarrow> nested live' p = nested live p)"
proof -
  have decoded: "decode_json (annotation_body resourceID)
      = Some (annotation_patch (String resourceID))"
    using decode_annotation_body [OF plain] by simp
  have "objects (snd (snd (annotateWithResourceID lib logger kubeConfig rel resourceID c)))
        (resource, addressed_namespace rel obj, GetName obj)
      = Some (MergePatch (annotation_patch (String resourceID)) live)"
    using annotate_loop_patches [OF decoded resolved served held, of after]
    by (simp add: annotateWithResourceID_loop [OF client mapper] objs)
  then show ?thesis
    using annotation_patch_sets annotation_patch_frame by simp
qed

text \<open>
  Claim C6. For every descriptor whose type resolves, the claim is to send a merge patch
  that sets the antecedent annotation, and nothing else, to the identifier's string form.
  Line 112 puts the identifier between the quotes of the body as it is. With the
  identifier \<open>prod:helmrelease/x","owner":"y\<close> the body is the well-formed document
  \<open>{"metadata":{"annotations":{"helm.fluxcd.io/antecedent":"prod:helmrelease/x","owner":"y"}}}\<close>:
  after the call the ConfigMap's antecedent annotation is \<open>prod:helmrelease/x\<close>, which is
  not the identifier's string form, and its \<open>owner\<close> annotation, \<open>team\<close> before, is
  \<open>y\<close>. A verification for the same identifier then answers that the release belongs to
  someone else.
\<close>

theorem claim_overwrites_another_annotation:
  "map_option (\<lambda>live. nested live [''metadata'', ''annotations'', ''owner''])
       (objects quiet_cluster configmap_key) = Some (Some (JString ''team''))
   \<and> map_option (\<lambda>live. nested live [''metadata'', ''annotations'', ''owner''])
       (objects (snd (snd (annotateWithResourceID example_lib NopLogger example_config
          example_release injecting_ID quiet_cluster))) configmap_key)
     = Some (Some (JString ''y''))
   \<and> map_option (\<lambda>live. nested live antecedent_path)
       (objects (snd (snd (annotateWithResourceID example_lib NopLogger example_config
          example_release injecting_ID quiet_cluster))) configmap_key)
     = Some (Some (JString ''prod:helmrelease/x''))
   \<and> String injecting_ID \<noteq> ''prod:helmrelease/x''
   \<and> fst (annotatedWithResourceID example_lib 4 example_config example_release injecting_ID
          (snd (snd (annotateWithResourceID example_lib NopLogger example_config
             example_release injecting_ID quiet_cluster))))
     = Return (False, ''prod:helmrelease/x'', None)"
  by code_simp

subsection \<open>Claiming twice\<close>

text \<open>
  Claim C7. Take two consecutive calls of \<open>annotateWithResourceID\<close> for one release and
  one identifier (the libraries' run, the configuration and the logger may differ between
  them). An object that holds the result of the patch after the first call is the same
  object after the second call; so is the value of its antecedent annotation.
\<close>

theorem claim_is_idempotent:
  assumes first: "c1 = snd (snd (annotateWithResourceID lib logger kubeConfig rel resourceID c))"
    and second: "c2 = snd (snd (annotateWithResourceID lib' logger' kubeConfig' rel
                                 resourceID c1))"
    and body: "decode_json (annotation_body resourceID) = Some p"
    and before: "objects c k = Some live"
    and patched: "objects c1 k = Some (MergePatch p live)"
  shows "objects c2 k = objects c1 k
    \<and> map_option (\<lambda>live. fmlookup (GetAnnotations live) AntecedentAnnotation) (objects c2 k)
      = map_option (\<lambda>live. fmlookup (GetAnnotations live) AntecedentAnnotation) (objects c1 k)"
proof -
  have "objects c2 k = objects c1 k
      \<or> (\<exists>p' t. decode_json (annotation_body resourceID) = Some p' \<and> objects c1 k = Some t
           \<and> objects c2 k = Some (MergePatch p' t))"
    unfolding second by (rule annotateWithResourceID_objects)
  then have "objects c2 k = objects c1 k"
    using body patched by (auto simp: MergePatch_idem)
  then show ?thesis
    by simp
qed

text \<open>
  On the example: in the first call the patch of the Service is served and the other two
  fail; in the second call all three are served. The Service is the same after both.
\<close>

theorem claim_is_idempotent_witness:
  "objects (snd (snd (annotateWithResourceID example_lib NopLogger example_config
      example_release example_ID
      (snd (snd (annotateWithResourceID example_lib NopLogger example_config example_release
         example_ID example_cluster)))))) service_key
   = objects (snd (snd (annotateWithResourceID example_lib NopLogger example_config
      example_release example_ID example_cluster))) service_key
   \<and> map_option (\<lambda>live. fmlookup (GetAnnotations live) AntecedentAnnotation)
       (objects (snd (snd (annotateWithResourceID example_lib NopLogger example_config
          example_release example_ID example_cluster))) service_key)
     = Some (Some ''prod:helmrelease/app'')"
proof -
  let ?c1 = "snd (snd (annotateWithResourceID example_lib NopLogger example_config
               example_release example_ID example_cluster))"
  let ?c2 = "snd (snd (annotateWithResourceID example_lib NopLogger example_config
               example_release example_ID ?c1))"
  let ?p = "annotation_patch ''prod:helmrelease/app''"
  let ?live = "annotated ''prod:helmrelease/app''"
  have body: "decode_json (annotation_body example_ID) = Some ?p"
    by code_simp
  have before: "objects example_cluster service_key = Some ?live"
    by (simp add: example_cluster_def example_objects_def service_key_def)
  have patched: "objects ?c1 service_key = Some (MergePatch ?p ?live)"
    by code_simp
  have "map_option (\<lambda>live. fmlookup (GetAnnotations live) AntecedentAnnotation)
       (objects ?c1 service_key) = Some (Some ''prod:helmrelease/app'')"
    by code_simp
  then show ?thesis
    using claim_is_idempotent [OF refl refl body before patched,
        of example_lib NopLogger example_config]
    by simp
qed

end
